theory Spec2Isabelle
  imports Main "HOL-Library.AList"
begin

section \<open>The OPC UA client of Jupiter SCADA: data model\<close>

text \<open>
  The development follows \<^verbatim>\<open>src/jupiter_scada/opcua/client.py\<close>. Python objects
  that the client stores and later mutates in place (the \<^verbatim>\<open>LiveTag\<close> instances) live
  in an explicit heap, so that a reference handed to a caller and the reference kept in
  \<^verbatim>\<open>_data_store\<close> denote the same object. Dictionaries are association lists
  in insertion order; \<^verbatim>\<open>d[k] = v\<close> is \<open>AList.update\<close> (replace in place, or append).
\<close>

text \<open>Tag values are dynamically typed; the client stores them and never inspects them.\<close>

datatype pyval = PNone | PBool bool | PInt int | PStr string

text \<open>
  The exceptions that can travel through the client. \<^verbatim>\<open>CancelledError\<close> derives from
  \<^verbatim>\<open>BaseException\<close>, so an \<^verbatim>\<open>except Exception\<close> clause does not catch it.
\<close>

datatype error =
    AttributeError | IndexError | ConnectionError | UaError | OSError | CancelledError

fun is_Exception :: "error \<Rightarrow> bool" where
  "is_Exception CancelledError = False"
| "is_Exception AttributeError = True"
| "is_Exception IndexError = True"
| "is_Exception ConnectionError = True"
| "is_Exception UaError = True"
| "is_Exception OSError = True"

datatype 'a res = Returned 'a | Raised error

type_synonym ref = nat
type_synonym instant = nat

text \<open>The clock seen by one operation: \<open>now k\<close> is what \<^verbatim>\<open>datetime.utcnow()\<close> returns in
  turn \<open>k\<close> of the operation's loop (every turn of a loop reads the clock at most once).\<close>

type_synonym clock = "nat \<Rightarrow> instant"

datatype node = Node string

type_synonym subscription_handle = nat

text \<open>A configured tag (\<^verbatim>\<open>tag.name\<close>, \<^verbatim>\<open>tag.node_id\<close>); the configuration is a list of
  groups, each with its list of tags (\<^verbatim>\<open>settings.opc_tags\<close>, \<^verbatim>\<open>group.tags\<close>). The client
  only reads it, so it is a parameter \<open>cfg\<close> of the operations that do.\<close>

record tag =
  tg_name :: string
  tg_node_id :: string

type_synonym opc_tags = "tag list list"

text \<open>
  Modelled from the spec: the declaration of \<^verbatim>\<open>LiveTag\<close> is not among the sources
  (\<^verbatim>\<open>models/opc.py\<close> declares \<^verbatim>\<open>TagData\<close> with the same fields). The fields are the
  keyword arguments of the constructor call in \<^verbatim>\<open>_initialize_data_store\<close>; the
  timestamp is nullable as in \<^verbatim>\<open>TagData\<close>.
\<close>

record live_tag =
  lt_name :: string
  lt_node_id :: string
  lt_value :: pyval
  lt_status :: string
  lt_timestamp :: "instant option"

text \<open>
  \<^verbatim>\<open>ua.DataValue\<close> of the transport library: the variant and the status code are
  optional attributes, and reading an attribute of \<^verbatim>\<open>None\<close> raises
  \<^verbatim>\<open>AttributeError\<close>.
\<close>

record data_value =
  dv_Value :: "pyval option"
  dv_StatusCode_name :: "string option"
  dv_SourceTimestamp :: "instant option"

record client =
  subscription :: "subscription_handle option"
  is_connected :: bool
  running :: bool
  connection_task :: "unit option"
  data_store :: "(string \<times> ref) list"
  node_map :: "(node \<times> string) list"
  heap :: "ref \<Rightarrow> live_tag option"
  next_ref :: ref

text \<open>
  What the transport (\<^verbatim>\<open>asyncua.Client\<close>) answers to the calls of one operation:
  \<open>None\<close> or \<open>Inr\<close> when the call returns, \<open>Some e\<close> or \<open>Inl e\<close> when it raises \<open>e\<close>.
\<close>

record transport =
  t_connect :: "error option"
  t_disconnect :: "error option"
  t_create_subscription :: "error + subscription_handle"
  t_get_node :: "string \<Rightarrow> error + node"
  t_subscribe_data_change :: "node list \<Rightarrow> error option"
  t_read_values :: "node list \<Rightarrow> error option"
  t_read_data_values :: "node list \<Rightarrow> error + data_value list"
  t_node_read_value :: "node \<Rightarrow> error + pyval"
  t_node_write_value :: "node \<Rightarrow> pyval \<Rightarrow> error option"

section \<open>Construction\<close>

text \<open>One assignment \<^verbatim>\<open>self._data_store[tag.name] = LiveTag(...)\<close>: a fresh object is
  allocated and the dictionary entry is bound to it. \<open>now\<close> is the reading of
  \<^verbatim>\<open>datetime.utcnow()\<close> in this turn of the loop.\<close>

definition store_live_tag :: "instant \<Rightarrow> tag \<Rightarrow> client \<Rightarrow> client" where
  "store_live_tag now t s =
     s\<lparr> heap := (heap s)(next_ref s \<mapsto>
            \<lparr> lt_name = tg_name t, lt_node_id = tg_node_id t, lt_value = PNone,
              lt_status = ''Uncertain'', lt_timestamp = Some now \<rparr>),
        next_ref := Suc (next_ref s),
        data_store := AList.update (tg_name t) (next_ref s) (data_store s) \<rparr>"

text \<open>The nested loops over the groups and their tags; the clock is read anew for every
  tag.\<close>

fun initialize_loop :: "clock \<Rightarrow> nat \<Rightarrow> tag list \<Rightarrow> client \<Rightarrow> client" where
  "initialize_loop now k [] s = s"
| "initialize_loop now k (t # ts) s =
     initialize_loop now (Suc k) ts (store_live_tag (now k) t s)"

definition initialize_data_store :: "opc_tags \<Rightarrow> clock \<Rightarrow> client \<Rightarrow> client" where
  "initialize_data_store cfg now s = initialize_loop now 0 (concat cfg) s"

definition OpcuaClient_init :: "opc_tags \<Rightarrow> clock \<Rightarrow> client" where
  "OpcuaClient_init cfg now =
     initialize_data_store cfg now
       \<lparr> subscription = None, is_connected = False, running = False,
         connection_task = None, data_store = [], node_map = [],
         heap = (\<lambda>r. None), next_ref = 0 \<rparr>"

section \<open>Connection life cycle\<close>

definition start :: "client \<Rightarrow> unit res \<times> client" where
  "start s =
     (if running s then (Returned (), s)
      else (Returned (), s\<lparr> running := True, connection_task := Some () \<rparr>))"

definition connect :: "transport \<Rightarrow> client \<Rightarrow> unit res \<times> client" where
  "connect env s =
     (case t_connect env of
        Some e \<Rightarrow> (Raised e, s)
      | None \<Rightarrow> (Returned (), s\<lparr> is_connected := True \<rparr>))"

text \<open>The \<^verbatim>\<open>finally\<close> block runs whether the transport call returns, raises an
  \<^verbatim>\<open>Exception\<close> (logged) or raises something else (propagated).\<close>

definition disconnect :: "transport \<Rightarrow> client \<Rightarrow> unit res \<times> client" where
  "disconnect env s =
     (if is_connected s then
        (let s' = s\<lparr> is_connected := False, subscription := None, node_map := [] \<rparr>
         in case t_disconnect env of
              None \<Rightarrow> (Returned (), s')
            | Some e \<Rightarrow> if is_Exception e then (Returned (), s') else (Raised e, s'))
      else (Returned (), s))"

section \<open>Updating the cache\<close>

definition set_value :: "ref \<Rightarrow> pyval \<Rightarrow> client \<Rightarrow> client" where
  "set_value r v s =
     s\<lparr> heap := (heap s)(r := map_option (\<lambda>lt. lt\<lparr> lt_value := v \<rparr>) (heap s r)) \<rparr>"

definition set_status :: "ref \<Rightarrow> string \<Rightarrow> client \<Rightarrow> client" where
  "set_status r st s =
     s\<lparr> heap := (heap s)(r := map_option (\<lambda>lt. lt\<lparr> lt_status := st \<rparr>) (heap s r)) \<rparr>"

definition set_timestamp :: "ref \<Rightarrow> instant \<Rightarrow> client \<Rightarrow> client" where
  "set_timestamp r t s =
     s\<lparr> heap := (heap s)(r := map_option (\<lambda>lt. lt\<lparr> lt_timestamp := Some t \<rparr>) (heap s r)) \<rparr>"

text \<open>
  \<^verbatim>\<open>if not tag_name\<close> also discards a node mapped to the empty name. The three
  attribute assignments happen one after the other on the object the dictionary refers
  to; an \<^verbatim>\<open>AttributeError\<close> in the second leaves the first one done.
\<close>

definition update_tag_value_from_node ::
    "node \<Rightarrow> data_value \<Rightarrow> instant \<Rightarrow> client \<Rightarrow> unit res \<times> client" where
  "update_tag_value_from_node nd dv now s =
     (case map_of (node_map s) nd of
        None \<Rightarrow> (Returned (), s)
      | Some tag_name \<Rightarrow>
          if tag_name = [] then (Returned (), s)
          else
            (case map_of (data_store s) tag_name of
               None \<Rightarrow> (Returned (), s)
             | Some r \<Rightarrow>
                 (case dv_Value dv of
                    None \<Rightarrow> (Raised AttributeError, s)
                  | Some v \<Rightarrow>
                      (let s1 = set_value r v s in
                       case dv_StatusCode_name dv of
                         None \<Rightarrow> (Raised AttributeError, s1)
                       | Some st \<Rightarrow>
                           (let s2 = set_status r st s1;
                                s3 = set_timestamp r
                                       (case dv_SourceTimestamp dv of
                                          Some t \<Rightarrow> t | None \<Rightarrow> now) s2
                            in (Returned (), s3))))))"

text \<open>The loop \<^verbatim>\<open>for i, node in enumerate(nodes)\<close> with \<^verbatim>\<open>data_values[i]\<close>, from turn
  \<open>i\<close> on; the second list being too short is the \<^verbatim>\<open>IndexError\<close> of the indexing. Each
  update reads the clock itself.\<close>

fun populate_loop ::
    "clock \<Rightarrow> nat \<Rightarrow> node list \<Rightarrow> data_value list \<Rightarrow> client \<Rightarrow> unit res \<times> client" where
  "populate_loop now i [] dvs s = (Returned (), s)"
| "populate_loop now i (nd # nds) [] s = (Raised IndexError, s)"
| "populate_loop now i (nd # nds) (dv # dvs) s =
     (case update_tag_value_from_node nd dv (now i) s of
        (Raised e, s') \<Rightarrow> (Raised e, s')
      | (Returned u, s') \<Rightarrow> populate_loop now (Suc i) nds dvs s')"

definition populate_initial_data_try ::
    "transport \<Rightarrow> clock \<Rightarrow> node list \<Rightarrow> client \<Rightarrow> unit res \<times> client" where
  "populate_initial_data_try env now nodes s =
     (case t_read_values env nodes of
        Some e \<Rightarrow> (Raised e, s)
      | None \<Rightarrow>
          (case t_read_data_values env nodes of
             Inl e \<Rightarrow> (Raised e, s)
           | Inr dvs \<Rightarrow> populate_loop now 0 nodes dvs s))"

definition populate_initial_data ::
    "transport \<Rightarrow> clock \<Rightarrow> node list \<Rightarrow> client \<Rightarrow> unit res \<times> client" where
  "populate_initial_data env now nodes s =
     (case populate_initial_data_try env now nodes s of
        (Raised e, s') \<Rightarrow> if is_Exception e then (Returned (), s') else (Raised e, s')
      | (Returned u, s') \<Rightarrow> (Returned (), s'))"

section \<open>Subscriptions\<close>

text \<open>The loop over \<^verbatim>\<open>tags_to_process\<close>: a \<^verbatim>\<open>ua.UaError\<close> of \<^verbatim>\<open>get_node\<close> skips the
  tag, any other exception leaves the loop.\<close>

fun get_nodes_loop ::
    "transport \<Rightarrow> tag list \<Rightarrow> node list \<Rightarrow> client \<Rightarrow> node list res \<times> client" where
  "get_nodes_loop env [] nodes s = (Returned nodes, s)"
| "get_nodes_loop env (t # ts) nodes s =
     (case t_get_node env (tg_node_id t) of
        Inr nd \<Rightarrow>
          get_nodes_loop env ts (nodes @ [nd])
            (s\<lparr> node_map := AList.update nd (tg_name t) (node_map s) \<rparr>)
      | Inl e \<Rightarrow>
          if e = UaError then get_nodes_loop env ts nodes s else (Raised e, s))"

definition initialize_subscriptions_try ::
    "opc_tags \<Rightarrow> transport \<Rightarrow> clock \<Rightarrow> client \<Rightarrow> unit res \<times> client" where
  "initialize_subscriptions_try cfg env now s =
     (case t_create_subscription env of
        Inl e \<Rightarrow> (Raised e, s)
      | Inr sub \<Rightarrow>
          (case get_nodes_loop env (concat cfg) [] (s\<lparr> subscription := Some sub \<rparr>) of
             (Raised e, s2) \<Rightarrow> (Raised e, s2)
           | (Returned nodes, s2) \<Rightarrow>
               if nodes \<noteq> [] then
                 (case t_subscribe_data_change env nodes of
                    Some e \<Rightarrow> (Raised e, s2)
                  | None \<Rightarrow> populate_initial_data env now nodes s2)
               else (Returned (), s2)))"

definition initialize_subscriptions ::
    "opc_tags \<Rightarrow> transport \<Rightarrow> clock \<Rightarrow> client \<Rightarrow> unit res \<times> client" where
  "initialize_subscriptions cfg env now s =
     (if \<not> is_connected s then (Returned (), s)
      else
        (case initialize_subscriptions_try cfg env now s of
           (Raised e, s') \<Rightarrow> if is_Exception e then disconnect env s' else (Raised e, s')
         | (Returned u, s') \<Rightarrow> (Returned (), s')))"

text \<open>The body of the \<^verbatim>\<open>while self._running\<close> loop of \<^verbatim>\<open>_connection_manager\<close>, up to
  the sleep.\<close>

definition connection_manager_body ::
    "opc_tags \<Rightarrow> transport \<Rightarrow> clock \<Rightarrow> client \<Rightarrow> unit res \<times> client" where
  "connection_manager_body cfg env now s =
     (if \<not> is_connected s then
        (case connect env s of
           (Raised e, s1) \<Rightarrow> if is_Exception e then disconnect env s1 else (Raised e, s1)
         | (Returned u, s1) \<Rightarrow>
             (case initialize_subscriptions cfg env now s1 of
                (Raised e, s2) \<Rightarrow>
                  if is_Exception e then disconnect env s2 else (Raised e, s2)
              | (Returned u, s2) \<Rightarrow> (Returned (), s2)))
      else (Returned (), s))"

text \<open>\<^verbatim>\<open>stop\<close>: the manager task is cancelled while it is suspended (its
  \<^verbatim>\<open>CancelledError\<close> is caught here), then the session is released.\<close>

definition stop :: "transport \<Rightarrow> client \<Rightarrow> unit res \<times> client" where
  "stop env s =
     (if \<not> running s then (Returned (), s)
      else disconnect env (s\<lparr> running := False \<rparr>))"

section \<open>Queries\<close>

text \<open>\<^verbatim>\<open>list(self._data_store.values())\<close>: a new list of the same objects.\<close>

definition get_all_tags :: "client \<Rightarrow> ref list" where
  "get_all_tags s = map snd (data_store s)"

text \<open>\<^verbatim>\<open>self._data_store.get(name)\<close>: the object itself, or \<^verbatim>\<open>None\<close>.\<close>

definition get_tag_by_name :: "string \<Rightarrow> client \<Rightarrow> ref option" where
  "get_tag_by_name nm s = map_of (data_store s) nm"

definition read_value :: "transport \<Rightarrow> string \<Rightarrow> client \<Rightarrow> pyval res \<times> client" where
  "read_value env nid s =
     (if \<not> is_connected s then (Raised ConnectionError, s)
      else
        (case t_get_node env nid of
           Inl e \<Rightarrow> (Raised e, s)
         | Inr nd \<Rightarrow>
             (case t_node_read_value env nd of
                Inl e \<Rightarrow> (Raised e, s)
              | Inr v \<Rightarrow> (Returned v, s))))"

definition write_value ::
    "transport \<Rightarrow> string \<Rightarrow> pyval \<Rightarrow> client \<Rightarrow> unit res \<times> client" where
  "write_value env nid v s =
     (if \<not> is_connected s then (Raised ConnectionError, s)
      else
        (case t_get_node env nid of
           Inl e \<Rightarrow> (Raised e, s)
         | Inr nd \<Rightarrow>
             (case t_node_write_value env nd v of
                Some e \<Rightarrow> (Raised e, s)
              | None \<Rightarrow> (Returned (), s))))"

text \<open>What a reader holding a reference sees at a given moment.\<close>

definition deref :: "client \<Rightarrow> ref \<Rightarrow> live_tag option" where
  "deref s r = heap s r"

definition tag_entry :: "client \<Rightarrow> string \<Rightarrow> live_tag option" where
  "tag_entry s nm = (case get_tag_by_name nm s of None \<Rightarrow> None | Some r \<Rightarrow> deref s r)"

section \<open>The process as a sequence of operations\<close>

text \<open>
  Everything that can happen to a constructed client: the public calls, one turn of the
  manager loop (taken only while \<^verbatim>\<open>_running\<close> holds) and a data-change notification,
  whose update task runs detached, so an exception of it reaches nobody.
\<close>

datatype event =
    Start
  | Stop transport
  | ManagerTurn transport clock
  | DataChange node data_value instant
  | GetAllTags
  | GetTagByName string
  | ReadValue transport string
  | WriteValue transport string pyval

fun step :: "opc_tags \<Rightarrow> event \<Rightarrow> client \<Rightarrow> client" where
  "step cfg Start s = snd (start s)"
| "step cfg (Stop env) s = snd (stop env s)"
| "step cfg (ManagerTurn env now) s =
     (if running s then snd (connection_manager_body cfg env now s) else s)"
| "step cfg (DataChange nd dv now) s = snd (update_tag_value_from_node nd dv now s)"
| "step cfg GetAllTags s = s"
| "step cfg (GetTagByName nm) s = s"
| "step cfg (ReadValue env nid) s = snd (read_value env nid s)"
| "step cfg (WriteValue env nid v) s = snd (write_value env nid v s)"

definition run :: "opc_tags \<Rightarrow> event list \<Rightarrow> client \<Rightarrow> client" where
  "run cfg es s = fold (step cfg) es s"

section \<open>Invariants\<close>

text \<open>Every dictionary entry refers to an allocated object that carries the entry's key as
  its name and a timestamp.\<close>

definition cache_ok :: "client \<Rightarrow> bool" where
  "cache_ok s = list_all (\<lambda>(n, r). case heap s r of None \<Rightarrow> False
        | Some lt \<Rightarrow> lt_name lt = n \<and> lt_timestamp lt \<noteq> None) (data_store s)"

text \<open>The state of the cache after the construction loop has gone through the tags \<open>ts\<close>:
  the object of the \<open>r\<close>-th tag has reference \<open>r\<close> and the clock reading of turn \<open>r\<close>, and
  a name is bound to the object of the last tag that carries it.\<close>

definition init_ok :: "clock \<Rightarrow> tag list \<Rightarrow> client \<Rightarrow> bool" where
  "init_ok now ts s =
     (next_ref s = length ts \<and> distinct (map fst (data_store s)) \<and>
      list_all (\<lambda>(n, r). r < length ts \<and> tg_name (ts ! r) = n \<and>
        list_all (\<lambda>j. tg_name (ts ! j) \<noteq> n) [Suc r..<length ts] \<and>
        (case heap s r of None \<Rightarrow> False
         | Some lt \<Rightarrow> lt_name lt = n \<and> lt_value lt = PNone \<and> lt_status lt = ''Uncertain''
             \<and> lt_timestamp lt = Some (now r))) (data_store s))"

text \<open>A client that is not connected holds no subscription and no node map.\<close>

definition conn_ok :: "client \<Rightarrow> bool" where
  "conn_ok s = (is_connected s \<or> (subscription s = None \<and> node_map s = []))"

text \<open>Two states that agree on everything but the heap and the bookkeeping of the manager task.\<close>

definition unchanged_ctl :: "client \<Rightarrow> client \<Rightarrow> bool" where
  "unchanged_ctl s s' = (data_store s' = data_store s \<and> node_map s' = node_map s \<and>
      is_connected s' = is_connected s \<and> subscription s' = subscription s \<and>
      running s' = running s)"

text \<open>The operations in which \<^verbatim>\<open>connect\<close> is called and returns.\<close>

fun connect_succeeds :: "event \<Rightarrow> bool" where
  "connect_succeeds (ManagerTurn env now) = (t_connect env = None)"
| "connect_succeeds Start = False"
| "connect_succeeds (Stop env) = False"
| "connect_succeeds (DataChange nd dv now) = False"
| "connect_succeeds GetAllTags = False"
| "connect_succeeds (GetTagByName nm) = False"
| "connect_succeeds (ReadValue env nid) = False"
| "connect_succeeds (WriteValue env nid v) = False"

text \<open>The operation \<^verbatim>\<open>stop\<close>.\<close>

fun is_Stop :: "event \<Rightarrow> bool" where
  "is_Stop (Stop env) = True"
| "is_Stop Start = False"
| "is_Stop (ManagerTurn env now) = False"
| "is_Stop (DataChange nd dv now) = False"
| "is_Stop GetAllTags = False"
| "is_Stop (GetTagByName nm) = False"
| "is_Stop (ReadValue env nid) = False"
| "is_Stop (WriteValue env nid v) = False"

section \<open>Which tags receive data\<close>

text \<open>
  The tag that one call of \<^verbatim>\<open>update_tag_value_from_node\<close> delivers data to, if any: the
  name the node is mapped to, when that name is non-empty and cached and the data value
  carries a variant, so that at least the assignment to \<^verbatim>\<open>live_tag.value\<close> happens.
\<close>

definition update_writes :: "node \<Rightarrow> data_value \<Rightarrow> client \<Rightarrow> string list" where
  "update_writes nd dv s =
     (case map_of (node_map s) nd of
        None \<Rightarrow> []
      | Some tag_name \<Rightarrow>
          if tag_name = [] then []
          else
            (case map_of (data_store s) tag_name of
               None \<Rightarrow> []
             | Some r \<Rightarrow> (case dv_Value dv of None \<Rightarrow> [] | Some v \<Rightarrow> [tag_name])))"

text \<open>The tags that the updates of the initial read deliver to, turn by turn, up to the
  first update that raises.\<close>

fun populate_writes ::
    "clock \<Rightarrow> nat \<Rightarrow> node list \<Rightarrow> data_value list \<Rightarrow> client \<Rightarrow> string list" where
  "populate_writes now i [] dvs s = []"
| "populate_writes now i (nd # nds) [] s = []"
| "populate_writes now i (nd # nds) (dv # dvs) s =
     update_writes nd dv s @
     (case update_tag_value_from_node nd dv (now i) s of
        (Raised e, s') \<Rightarrow> []
      | (Returned u, s') \<Rightarrow> populate_writes now (Suc i) nds dvs s')"

text \<open>The tags that one turn of the manager loop delivers to: those of the initial read,
  when the turn gets that far (connect, subscription, node lookup, data-change
  subscription and both reads succeed).\<close>

definition turn_writes :: "opc_tags \<Rightarrow> transport \<Rightarrow> clock \<Rightarrow> client \<Rightarrow> string list" where
  "turn_writes cfg env now s =
     (if is_connected s then []
      else
        (case t_connect env of
           Some e \<Rightarrow> []
         | None \<Rightarrow>
             (case t_create_subscription env of
                Inl e \<Rightarrow> []
              | Inr sub \<Rightarrow>
                  (case get_nodes_loop env (concat cfg) []
                          (s\<lparr> is_connected := True, subscription := Some sub \<rparr>) of
                     (Raised e, s2) \<Rightarrow> []
                   | (Returned nodes, s2) \<Rightarrow>
                       if nodes = [] then []
                       else
                         (case t_subscribe_data_change env nodes of
                            Some e \<Rightarrow> []
                          | None \<Rightarrow>
                              (case t_read_values env nodes of
                                 Some e \<Rightarrow> []
                               | None \<Rightarrow>
                                   (case t_read_data_values env nodes of
                                      Inl e \<Rightarrow> []
                                    | Inr dvs \<Rightarrow> populate_writes now 0 nodes dvs s2)))))))"

fun writes :: "opc_tags \<Rightarrow> event \<Rightarrow> client \<Rightarrow> string list" where
  "writes cfg (ManagerTurn env now) s = (if running s then turn_writes cfg env now s else [])"
| "writes cfg (DataChange nd dv now) s = update_writes nd dv s"
| "writes cfg Start s = []"
| "writes cfg (Stop env) s = []"
| "writes cfg GetAllTags s = []"
| "writes cfg (GetTagByName nm) s = []"
| "writes cfg (ReadValue env nid) s = []"
| "writes cfg (WriteValue env nid v) s = []"

text \<open>The tag \<open>nm\<close> receives no data while the operations \<open>es\<close> run from state \<open>s\<close>.\<close>

fun no_data_for :: "opc_tags \<Rightarrow> string \<Rightarrow> event list \<Rightarrow> client \<Rightarrow> bool" where
  "no_data_for cfg nm [] s = True"
| "no_data_for cfg nm (e # es) s =
     (nm \<notin> set (writes cfg e s) \<and> no_data_for cfg nm es (step cfg e s))"

section \<open>Example inputs\<close>

text \<open>Two tags in two groups, a transport that answers every call, and variants of it in
  which one call raises; the states are those the operations produce from them.\<close>

definition clock_from :: "instant \<Rightarrow> clock" where
  "clock_from t = (\<lambda>k. t + k)"

definition tagA :: tag where
  "tagA = \<lparr> tg_name = ''A'', tg_node_id = ''ns=2;i=1'' \<rparr>"

definition tagB :: tag where
  "tagB = \<lparr> tg_name = ''B'', tg_node_id = ''ns=2;i=2'' \<rparr>"

definition cfg_ex :: opc_tags where
  "cfg_ex = [[tagA], [tagB]]"

definition dv_good :: data_value where
  "dv_good = \<lparr> dv_Value = Some (PInt 10), dv_StatusCode_name = Some ''Good'',
               dv_SourceTimestamp = Some 5 \<rparr>"

definition dv_nostamp :: data_value where
  "dv_nostamp = \<lparr> dv_Value = Some (PInt 7), dv_StatusCode_name = Some ''Good'',
                  dv_SourceTimestamp = None \<rparr>"

definition env_ok :: transport where
  "env_ok = \<lparr> t_connect = None, t_disconnect = None, t_create_subscription = Inr 1,
      t_get_node = (\<lambda>nid. Inr (Node nid)), t_subscribe_data_change = (\<lambda>ns. None),
      t_read_values = (\<lambda>ns. None),
      t_read_data_values = (\<lambda>ns. Inr (map (\<lambda>n. dv_good) ns)),
      t_node_read_value = (\<lambda>n. Inr (PInt 10)), t_node_write_value = (\<lambda>n v. None) \<rparr>"

definition env_down :: transport where
  "env_down = env_ok\<lparr> t_connect := Some OSError \<rparr>"

definition env_noread :: transport where
  "env_noread = env_ok\<lparr> t_read_values := (\<lambda>ns. Some OSError) \<rparr>"

definition env_short :: transport where
  "env_short = env_ok\<lparr> t_read_data_values := (\<lambda>ns. Inr [dv_good]) \<rparr>"

definition env_baddisc :: transport where
  "env_baddisc = env_ok\<lparr> t_disconnect := Some OSError \<rparr>"

definition s_init :: client where
  "s_init = OpcuaClient_init cfg_ex (clock_from 0)"

definition s_live :: client where
  "s_live = run cfg_ex [Start, ManagerTurn env_ok (clock_from 3)] s_init"

definition s_quiet :: client where
  "s_quiet = run cfg_ex [Start, ManagerTurn env_noread (clock_from 3)] s_init"


section \<open>Frame and invariant lemmas\<close>

lemma set_fields [simp]:
  "data_store (set_value r v s) = data_store s" "node_map (set_value r v s) = node_map s"
  "is_connected (set_value r v s) = is_connected s" "subscription (set_value r v s) = subscription s"
  "running (set_value r v s) = running s"
  "data_store (set_status r st s) = data_store s" "node_map (set_status r st s) = node_map s"
  "is_connected (set_status r st s) = is_connected s" "subscription (set_status r st s) = subscription s"
  "running (set_status r st s) = running s"
  "data_store (set_timestamp r t s) = data_store s" "node_map (set_timestamp r t s) = node_map s"
  "is_connected (set_timestamp r t s) = is_connected s" "subscription (set_timestamp r t s) = subscription s"
  "running (set_timestamp r t s) = running s"
  by (simp_all add: set_value_def set_status_def set_timestamp_def)

lemma cache_ok_set:
  "cache_ok s \<Longrightarrow> cache_ok (set_value r v s)"
  "cache_ok s \<Longrightarrow> cache_ok (set_status r st s)"
  "cache_ok s \<Longrightarrow> cache_ok (set_timestamp r t s)"
  by (auto simp: cache_ok_def set_value_def set_status_def set_timestamp_def list_all_iff
        split: option.splits)

lemma update_fields [simp]:
  "data_store (snd (update_tag_value_from_node nd dv now s)) = data_store s"
  "node_map (snd (update_tag_value_from_node nd dv now s)) = node_map s"
  "is_connected (snd (update_tag_value_from_node nd dv now s)) = is_connected s"
  "subscription (snd (update_tag_value_from_node nd dv now s)) = subscription s"
  "running (snd (update_tag_value_from_node nd dv now s)) = running s"
  by (simp_all add: update_tag_value_from_node_def Let_def split: option.splits)

lemma update_cache_ok:
  "cache_ok s \<Longrightarrow> cache_ok (snd (update_tag_value_from_node nd dv now s))"
  by (simp add: update_tag_value_from_node_def Let_def cache_ok_set split: option.splits)

lemma update_D:
  assumes "update_tag_value_from_node nd dv now s = (r, s')"
  shows "unchanged_ctl s s'" and "cache_ok s \<Longrightarrow> cache_ok s'"
  using assms update_fields[of nd dv now s] update_cache_ok[of s nd dv now]
  by (simp_all add: unchanged_ctl_def)

lemma unchanged_ctl_trans: "unchanged_ctl s s1 \<Longrightarrow> unchanged_ctl s1 s2 \<Longrightarrow> unchanged_ctl s s2"
  by (simp add: unchanged_ctl_def)

lemma unchanged_ctl_refl [simp]: "unchanged_ctl s s"
  by (simp add: unchanged_ctl_def)

lemma populate_loop_D:
  "populate_loop now i nds dvs s = (r, s') \<Longrightarrow> unchanged_ctl s s' \<and> (cache_ok s \<longrightarrow> cache_ok s')"
proof (induction now i nds dvs s arbitrary: r s' rule: populate_loop.induct)
  case (3 now i nd nds dv dvs s)
  obtain r1 s1 where u: "update_tag_value_from_node nd dv (now i) s = (r1, s1)"
    by (cases "update_tag_value_from_node nd dv (now i) s")
  note d = update_D[OF u]
  show ?case
  proof (cases r1)
    case (Returned x)
    with u "3.prems" have "populate_loop now (Suc i) nds dvs s1 = (r, s')" by simp
    from "3.IH"[OF u[symmetric] Returned this] d show ?thesis
      by (auto intro: unchanged_ctl_trans)
  next
    case (Raised e)
    with u "3.prems" d show ?thesis by auto
  qed
qed auto

lemma populate_initial_data_D:
  "populate_initial_data env now nds s = (r, s') \<Longrightarrow> unchanged_ctl s s' \<and> (cache_ok s \<longrightarrow> cache_ok s')"
  by (auto simp: populate_initial_data_def populate_initial_data_try_def
       split: option.splits sum.splits prod.splits res.splits if_splits dest: populate_loop_D)

lemma cache_ok_cong: "heap s' = heap s \<Longrightarrow> data_store s' = data_store s \<Longrightarrow> cache_ok s' = cache_ok s"
  by (simp add: cache_ok_def)

lemma get_nodes_loop_D:
  "get_nodes_loop env ts nodes s = (r, s') \<Longrightarrow>
     heap s' = heap s \<and> data_store s' = data_store s \<and> is_connected s' = is_connected s
     \<and> subscription s' = subscription s \<and> running s' = running s"
proof (induction ts arbitrary: nodes s)
  case Nil
  then show ?case by simp
next
  case (Cons t ts)
  show ?case
  proof (cases "t_get_node env (tg_node_id t)")
    case (Inr nd)
    with Cons.prems have
      "get_nodes_loop env ts (nodes @ [nd])
         (s\<lparr> node_map := AList.update nd (tg_name t) (node_map s) \<rparr>) = (r, s')"
      by simp
    from Cons.IH[OF this] show ?thesis by simp
  next
    case (Inl e)
    show ?thesis
    proof (cases "e = UaError")
      case True
      with Inl Cons.prems have "get_nodes_loop env ts nodes s = (r, s')" by simp
      from Cons.IH[OF this] show ?thesis .
    next
      case False
      with Inl Cons.prems show ?thesis by simp
    qed
  qed
qed

lemma populate_initial_data_Raised:
  "populate_initial_data env now nds s = (Raised e, s') \<Longrightarrow> \<not> is_Exception e"
  by (auto simp: populate_initial_data_def split: prod.splits res.splits if_splits)

lemma disconnect_D:
  assumes "disconnect env s = (r, s')"
  shows "heap s' = heap s" and "data_store s' = data_store s" and "running s' = running s"
    and "conn_ok s \<Longrightarrow> conn_ok s'" and "\<not> is_connected s'"
  using assms
  by (auto simp: disconnect_def Let_def conn_ok_def split: if_splits option.splits)

lemma initialize_subscriptions_try_D:
  assumes "initialize_subscriptions_try cfg env now s = (r, s')"
  shows "data_store s' = data_store s \<and> is_connected s' = is_connected s \<and>
         running s' = running s \<and> (cache_ok s \<longrightarrow> cache_ok s') \<and>
         (\<forall>e. r = Raised e \<and> is_Exception e \<longrightarrow> heap s' = heap s)"
proof (cases "t_create_subscription env")
  case (Inl e)
  with assms show ?thesis by (simp add: initialize_subscriptions_try_def)
next
  case (Inr sub)
  define s1 where "s1 = s\<lparr> subscription := Some sub \<rparr>"
  obtain rn s2 where g: "get_nodes_loop env (concat cfg) [] s1 = (rn, s2)"
    by (cases "get_nodes_loop env (concat cfg) [] s1")
  have s1: "heap s1 = heap s" "data_store s1 = data_store s" "is_connected s1 = is_connected s"
    "running s1 = running s"
    by (simp_all add: s1_def)
  from get_nodes_loop_D[OF g] s1 have s2:
    "heap s2 = heap s" "data_store s2 = data_store s" "is_connected s2 = is_connected s"
    "running s2 = running s"
    by simp_all
  have c2: "cache_ok s2 = cache_ok s"
    using s2 by (intro cache_ok_cong) simp_all
  show ?thesis
  proof (cases rn)
    case (Raised e)
    with assms Inr g have "r = Raised e" "s' = s2"
      by (simp_all add: initialize_subscriptions_try_def s1_def)
    with s2 c2 show ?thesis by simp
  next
    case (Returned nodes)
    show ?thesis
    proof (cases "nodes = []")
      case True
      with assms Inr g Returned have "r = Returned ()" "s' = s2"
        by (simp_all add: initialize_subscriptions_try_def s1_def)
      with s2 c2 show ?thesis by simp
    next
      case False
      show ?thesis
      proof (cases "t_subscribe_data_change env nodes")
        case (Some e)
        with assms Inr g Returned False have "r = Raised e" "s' = s2"
          by (simp_all add: initialize_subscriptions_try_def s1_def)
        with s2 c2 show ?thesis by simp
      next
        case None
        with assms Inr g Returned False
        have p: "populate_initial_data env now nodes s2 = (r, s')"
          by (simp add: initialize_subscriptions_try_def s1_def)
        from populate_initial_data_D[OF p] have
          "unchanged_ctl s2 s'" "cache_ok s2 \<longrightarrow> cache_ok s'" by simp_all
        moreover have "\<forall>e. r = Raised e \<longrightarrow> \<not> is_Exception e"
          using p populate_initial_data_Raised[of env now nodes s2 _ s'] by simp
        ultimately show ?thesis using s2 c2
          by (auto simp: unchanged_ctl_def)
      qed
    qed
  qed
qed

lemma initialize_subscriptions_D:
  assumes "initialize_subscriptions cfg env now s = (r, s')"
  shows "data_store s' = data_store s \<and> running s' = running s \<and>
         (cache_ok s \<longrightarrow> cache_ok s') \<and> (conn_ok s \<longrightarrow> conn_ok s') \<and>
         (is_connected s' \<or> heap s' = heap s)"
proof (cases "is_connected s")
  case False
  with assms show ?thesis by (simp add: initialize_subscriptions_def)
next
  case True
  obtain r1 s1 where t: "initialize_subscriptions_try cfg env now s = (r1, s1)"
    by (cases "initialize_subscriptions_try cfg env now s")
  note d = initialize_subscriptions_try_D[OF t]
  from d True have c1: "is_connected s1" by simp
  show ?thesis
  proof (cases r1)
    case (Returned u)
    with assms True t have "s' = s1" by (simp add: initialize_subscriptions_def)
    with d c1 show ?thesis by (simp add: conn_ok_def)
  next
    case (Raised e)
    show ?thesis
    proof (cases "is_Exception e")
      case False
      with assms True t Raised have "s' = s1" by (simp add: initialize_subscriptions_def)
      with d c1 show ?thesis by (simp add: conn_ok_def)
    next
      case ex: True
      with assms True t Raised have dc: "disconnect env s1 = (r, s')"
        by (simp add: initialize_subscriptions_def)
      have h: "heap s1 = heap s" using d Raised ex by simp
      have "conn_ok s'" using dc c1
        by (auto simp: disconnect_def Let_def conn_ok_def split: option.splits if_splits)
      have "cache_ok s' = cache_ok s"
        using disconnect_D(1,2)[OF dc] d h by (intro cache_ok_cong) simp_all
      with disconnect_D(1,2,3)[OF dc] d h \<open>conn_ok s'\<close> show ?thesis
        by simp
    qed
  qed
qed

lemma disconnect_Raised: "disconnect env s = (Raised e, s') \<Longrightarrow> \<not> is_Exception e"
  by (auto simp: disconnect_def Let_def split: if_splits option.splits)

lemma initialize_subscriptions_Raised:
  "initialize_subscriptions cfg env now s = (Raised e, s') \<Longrightarrow> \<not> is_Exception e"
  by (auto simp: initialize_subscriptions_def split: if_splits prod.splits res.splits
        dest: disconnect_Raised)

lemma connection_manager_body_D:
  assumes "connection_manager_body cfg env now s = (r, s')"
  shows "data_store s' = data_store s \<and> running s' = running s \<and>
         (cache_ok s \<longrightarrow> cache_ok s') \<and> (conn_ok s \<longrightarrow> conn_ok s') \<and>
         (is_connected s' \<or> heap s' = heap s)"
proof (cases "is_connected s")
  case True
  with assms show ?thesis by (simp add: connection_manager_body_def)
next
  case nc: False
  show ?thesis
  proof (cases "t_connect env")
    case (Some e)
    show ?thesis
    proof (cases "is_Exception e")
      case True
      with assms nc Some have "disconnect env s = (r, s')"
        by (simp add: connection_manager_body_def connect_def)
      with nc have "s' = s" by (simp add: disconnect_def)
      then show ?thesis by simp
    next
      case False
      with assms nc Some have "s' = s"
        by (simp add: connection_manager_body_def connect_def)
      then show ?thesis by simp
    qed
  next
    case None
    define s1 where "s1 = s\<lparr> is_connected := True \<rparr>"
    have s1: "heap s1 = heap s" "data_store s1 = data_store s" "running s1 = running s"
      "is_connected s1" "conn_ok s1"
      by (simp_all add: s1_def conn_ok_def)
    have c1: "cache_ok s1 = cache_ok s"
      using s1 by (intro cache_ok_cong) simp_all
    obtain r2 s2 where i: "initialize_subscriptions cfg env now s1 = (r2, s2)"
      by (cases "initialize_subscriptions cfg env now s1")
    note d = initialize_subscriptions_D[OF i]
    have base: "data_store s2 = data_store s \<and> running s2 = running s \<and>
         (cache_ok s \<longrightarrow> cache_ok s2) \<and> conn_ok s2 \<and>
         (is_connected s2 \<or> heap s2 = heap s)"
      using d s1 c1 by simp
    show ?thesis
    proof (cases r2)
      case (Returned u)
      with assms nc None i have "s' = s2"
        by (simp add: connection_manager_body_def connect_def s1_def)
      with base show ?thesis by simp
    next
      case (Raised e)
      show ?thesis
      proof (cases "is_Exception e")
        case False
        with assms nc None i Raised have "s' = s2"
          by (simp add: connection_manager_body_def connect_def s1_def)
        with base show ?thesis by simp
      next
        case True
        with i Raised initialize_subscriptions_Raised show ?thesis by blast
      qed
    qed
  qed
qed

lemma stop_D:
  assumes "stop env s = (r, s')"
  shows "heap s' = heap s" and "data_store s' = data_store s"
    and "conn_ok s \<Longrightarrow> conn_ok s'" and "\<not> running s'"
  using assms
  by (auto simp: stop_def disconnect_def Let_def conn_ok_def split: if_splits option.splits)

lemma start_D:
  assumes "start s = (r, s')"
  shows "heap s' = heap s" and "data_store s' = data_store s"
    and "conn_ok s' = conn_ok s" and "is_connected s' = is_connected s"
  using assms by (auto simp: start_def conn_ok_def split: if_splits)

lemma read_value_state [simp]: "snd (read_value env nid s) = s"
  by (simp add: read_value_def split: sum.splits)

lemma write_value_state [simp]: "snd (write_value env nid v s) = s"
  by (simp add: write_value_def split: sum.splits option.splits)

lemma step_data_store [simp]: "data_store (step cfg e s) = data_store s"
proof (cases e)
  case Start
  then show ?thesis using start_D(2)[of s "fst (start s)" "snd (start s)"] by simp
next
  case (Stop env)
  then show ?thesis using stop_D(2)[of env s "fst (stop env s)" "snd (stop env s)"] by simp
next
  case (ManagerTurn env now)
  then show ?thesis
    using connection_manager_body_D[of cfg env now s
        "fst (connection_manager_body cfg env now s)" "snd (connection_manager_body cfg env now s)"]
    by simp
qed simp_all

lemma step_cache_ok: "cache_ok s \<Longrightarrow> cache_ok (step cfg e s)"
proof (cases e)
  case Start
  assume "cache_ok s"
  moreover have "cache_ok (snd (start s)) = cache_ok s"
    using start_D(1,2)[of s "fst (start s)" "snd (start s)"] by (intro cache_ok_cong) simp_all
  ultimately show ?thesis using Start by simp
next
  case (Stop env)
  assume "cache_ok s"
  moreover have "cache_ok (snd (stop env s)) = cache_ok s"
    using stop_D(1,2)[of env s "fst (stop env s)" "snd (stop env s)"]
    by (intro cache_ok_cong) simp_all
  ultimately show ?thesis using Stop by simp
next
  case (ManagerTurn env now)
  assume "cache_ok s"
  then show ?thesis
    using ManagerTurn connection_manager_body_D[of cfg env now s
        "fst (connection_manager_body cfg env now s)" "snd (connection_manager_body cfg env now s)"]
    by simp
next
  case (DataChange nd dv now)
  assume "cache_ok s"
  then show ?thesis using DataChange by (simp add: update_cache_ok)
qed simp_all

lemma step_conn_ok: "conn_ok s \<Longrightarrow> conn_ok (step cfg e s)"
proof (cases e)
  case Start
  assume "conn_ok s"
  then show ?thesis
    using Start start_D(3)[of s "fst (start s)" "snd (start s)"] by simp
next
  case (Stop env)
  assume "conn_ok s"
  then show ?thesis
    using Stop stop_D(3)[of env s "fst (stop env s)" "snd (stop env s)"] by simp
next
  case (ManagerTurn env now)
  assume "conn_ok s"
  then show ?thesis
    using ManagerTurn connection_manager_body_D[of cfg env now s
        "fst (connection_manager_body cfg env now s)" "snd (connection_manager_body cfg env now s)"]
    by simp
next
  case (DataChange nd dv now)
  assume "conn_ok s"
  then show ?thesis using DataChange by (simp add: conn_ok_def)
qed simp_all

lemma run_data_store [simp]: "data_store (run cfg es s) = data_store s"
  unfolding run_def by (induction es arbitrary: s) simp_all

lemma run_cache_ok: "cache_ok s \<Longrightarrow> cache_ok (run cfg es s)"
  unfolding run_def by (induction es arbitrary: s) (simp_all add: step_cache_ok)

lemma run_conn_ok: "conn_ok s \<Longrightarrow> conn_ok (run cfg es s)"
  unfolding run_def by (induction es arbitrary: s) (simp_all add: step_conn_ok)

lemma store_live_tag_fields [simp]:
  "is_connected (store_live_tag now t s) = is_connected s"
  "running (store_live_tag now t s) = running s"
  "subscription (store_live_tag now t s) = subscription s"
  "node_map (store_live_tag now t s) = node_map s"
  "connection_task (store_live_tag now t s) = connection_task s"
  by (simp_all add: store_live_tag_def)

lemma set_AList_update_distinct:
  "distinct (map fst al) \<Longrightarrow> (k', v') \<in> set (AList.update k v al) \<Longrightarrow>
   (k', v') = (k, v) \<or> ((k', v') \<in> set al \<and> k' \<noteq> k)"
proof (induction al)
  case Nil
  then show ?case by simp
next
  case (Cons p ps)
  show ?case
  proof (cases "fst p = k")
    case True
    with Cons.prems have "(k', v') = (k, v) \<or> (k', v') \<in> set ps" by simp
    moreover have "k' \<noteq> k" if "(k', v') \<in> set ps"
    proof
      assume "k' = k"
      with that have "k \<in> fst ` set ps" by force
      with Cons.prems(1) True show False by simp
    qed
    ultimately show ?thesis by auto
  next
    case False
    with Cons.prems have "(k', v') = p \<or> (k', v') \<in> set (AList.update k v ps)" by simp
    then show ?thesis
    proof
      assume "(k', v') = p"
      with False show ?thesis by auto
    next
      assume "(k', v') \<in> set (AList.update k v ps)"
      with Cons.IH Cons.prems(1) show ?thesis by auto
    qed
  qed
qed

lemma store_live_tag_init_ok:
  assumes "init_ok now pre s"
  shows "init_ok now (pre @ [t]) (store_live_tag (now (length pre)) t s)"
proof -
  from assms have nr: "next_ref s = length pre" and di: "distinct (map fst (data_store s))"
    by (simp_all add: init_ok_def)
  have step: "r < Suc (length pre) \<and> tg_name ((pre @ [t]) ! r) = n \<and>
        (\<forall>j. Suc r \<le> j \<and> j < Suc (length pre) \<longrightarrow> tg_name ((pre @ [t]) ! j) \<noteq> n) \<and>
        (case ((heap s)(length pre \<mapsto>
            \<lparr> lt_name = tg_name t, lt_node_id = tg_node_id t, lt_value = PNone,
              lt_status = ''Uncertain'', lt_timestamp = Some (now (length pre)) \<rparr>)) r of
           None \<Rightarrow> False
         | Some lt \<Rightarrow> lt_name lt = n \<and> lt_value lt = PNone \<and> lt_status lt = ''Uncertain''
            \<and> lt_timestamp lt = Some (now r))"
    if m: "(n, r) \<in> set (AList.update (tg_name t) (length pre) (data_store s))" for n r
  proof -
    from set_AList_update_distinct[OF di m] show ?thesis
    proof
      assume "(n, r) = (tg_name t, length pre)"
      then show ?thesis by auto
    next
      assume old: "(n, r) \<in> set (data_store s) \<and> n \<noteq> tg_name t"
      from assms have "\<forall>x\<in>set (data_store s). case x of (n, r) \<Rightarrow>
          r < length pre \<and> tg_name (pre ! r) = n \<and>
          (\<forall>j\<in>set [Suc r..<length pre]. tg_name (pre ! j) \<noteq> n) \<and>
          (case heap s r of None \<Rightarrow> False
           | Some lt \<Rightarrow> lt_name lt = n \<and> lt_value lt = PNone \<and> lt_status lt = ''Uncertain''
               \<and> lt_timestamp lt = Some (now r))"
        by (simp add: init_ok_def list_all_iff)
      with old have e: "r < length pre \<and> tg_name (pre ! r) = n \<and>
          (\<forall>j\<in>set [Suc r..<length pre]. tg_name (pre ! j) \<noteq> n) \<and>
          (case heap s r of None \<Rightarrow> False
           | Some lt \<Rightarrow> lt_name lt = n \<and> lt_value lt = PNone \<and> lt_status lt = ''Uncertain''
               \<and> lt_timestamp lt = Some (now r))"
        by fastforce
      then have r: "r < length pre" and "tg_name (pre ! r) = n" and
        later: "\<forall>j. Suc r \<le> j \<and> j < length pre \<longrightarrow> tg_name (pre ! j) \<noteq> n" and
        "(case heap s r of None \<Rightarrow> False
        | Some lt \<Rightarrow> lt_name lt = n \<and> lt_value lt = PNone \<and> lt_status lt = ''Uncertain''
            \<and> lt_timestamp lt = Some (now r))"
        by auto
      moreover have "tg_name ((pre @ [t]) ! j) \<noteq> n" if "Suc r \<le> j" "j < Suc (length pre)" for j
      proof (cases "j < length pre")
        case True
        with later that show ?thesis by (simp add: nth_append)
      next
        case False
        with that have "j = length pre" by simp
        with old show ?thesis by auto
      qed
      ultimately show ?thesis by (simp add: nth_append)
    qed
  qed
  have "list_all (\<lambda>(n, r). r < length (pre @ [t]) \<and> tg_name ((pre @ [t]) ! r) = n \<and>
        list_all (\<lambda>j. tg_name ((pre @ [t]) ! j) \<noteq> n) [Suc r..<length (pre @ [t])] \<and>
        (case heap (store_live_tag (now (length pre)) t s) r of None \<Rightarrow> False
         | Some lt \<Rightarrow> lt_name lt = n \<and> lt_value lt = PNone \<and> lt_status lt = ''Uncertain''
             \<and> lt_timestamp lt = Some (now r))) (data_store (store_live_tag (now (length pre)) t s))"
    unfolding list_all_iff
  proof (intro ballI)
    fix x assume x: "x \<in> set (data_store (store_live_tag (now (length pre)) t s))"
    obtain n r where xnr: "x = (n, r)" by (cases x)
    with x nr have "(n, r) \<in> set (AList.update (tg_name t) (length pre) (data_store s))"
      by (simp add: store_live_tag_def)
    from step[OF this] show "case x of (n, r) \<Rightarrow>
        r < length (pre @ [t]) \<and> tg_name ((pre @ [t]) ! r) = n \<and>
        (\<forall>j\<in>set [Suc r..<length (pre @ [t])]. tg_name ((pre @ [t]) ! j) \<noteq> n) \<and>
        (case heap (store_live_tag (now (length pre)) t s) r of None \<Rightarrow> False
         | Some lt \<Rightarrow> lt_name lt = n \<and> lt_value lt = PNone \<and> lt_status lt = ''Uncertain''
             \<and> lt_timestamp lt = Some (now r))"
      using xnr nr by (auto simp: store_live_tag_def)
  qed
  moreover have "next_ref (store_live_tag (now (length pre)) t s) = length (pre @ [t])"
    using nr by (simp add: store_live_tag_def)
  moreover have "distinct (map fst (data_store (store_live_tag (now (length pre)) t s)))"
    using di by (simp add: store_live_tag_def AList.distinct_update)
  ultimately show ?thesis by (simp add: init_ok_def)
qed

lemma store_live_tag_keys:
  "fst ` set (data_store (store_live_tag now t s)) = insert (tg_name t) (fst ` set (data_store s))"
  by (simp add: store_live_tag_def AList.dom_update)

lemma store_live_tag_distinct:
  "distinct (map fst (data_store s)) \<Longrightarrow> distinct (map fst (data_store (store_live_tag now t s)))"
  by (simp add: store_live_tag_def AList.distinct_update)

lemma initialize_loop_init_ok:
  "init_ok now pre s \<Longrightarrow> init_ok now (pre @ ts) (initialize_loop now (length pre) ts s)"
proof (induction ts arbitrary: pre s)
  case Nil
  then show ?case by simp
next
  case (Cons t ts)
  from Cons.IH[OF store_live_tag_init_ok[OF Cons.prems, of t]] show ?case by simp
qed

lemma initialize_loop_facts:
  "fst ` set (data_store (initialize_loop now k ts s)) = tg_name ` set ts \<union> fst ` set (data_store s)"
  "distinct (map fst (data_store s)) \<Longrightarrow> distinct (map fst (data_store (initialize_loop now k ts s)))"
  "is_connected (initialize_loop now k ts s) = is_connected s"
  "running (initialize_loop now k ts s) = running s"
  "subscription (initialize_loop now k ts s) = subscription s"
  "node_map (initialize_loop now k ts s) = node_map s"
  "connection_task (initialize_loop now k ts s) = connection_task s"
proof (induction ts arbitrary: k s)
  case Nil
  { case 1 show ?case by simp }
  { case 2 then show ?case by simp }
  { case 3 show ?case by simp }
  { case 4 show ?case by simp }
  { case 5 show ?case by simp }
  { case 6 show ?case by simp }
  { case 7 show ?case by simp }
next
  case (Cons t ts)
  { case 1 show ?case using Cons.IH(1)[of "Suc k" "store_live_tag (now k) t s"]
      by (auto simp: store_live_tag_keys) }
  { case 2 then show ?case using Cons.IH(2)[of "store_live_tag (now k) t s" "Suc k"]
      by (simp add: store_live_tag_distinct) }
  { case 3 show ?case using Cons.IH(3)[of "Suc k" "store_live_tag (now k) t s"] by simp }
  { case 4 show ?case using Cons.IH(4)[of "Suc k" "store_live_tag (now k) t s"] by simp }
  { case 5 show ?case using Cons.IH(5)[of "Suc k" "store_live_tag (now k) t s"] by simp }
  { case 6 show ?case using Cons.IH(6)[of "Suc k" "store_live_tag (now k) t s"] by simp }
  { case 7 show ?case using Cons.IH(7)[of "Suc k" "store_live_tag (now k) t s"] by simp }
qed

lemma init_facts:
  "fst ` set (data_store (OpcuaClient_init cfg now)) = tg_name ` set (concat cfg)"
  "init_ok now (concat cfg) (OpcuaClient_init cfg now)"
  "distinct (map fst (data_store (OpcuaClient_init cfg now)))"
  "\<not> is_connected (OpcuaClient_init cfg now)"
  "\<not> running (OpcuaClient_init cfg now)"
  "subscription (OpcuaClient_init cfg now) = None"
  "node_map (OpcuaClient_init cfg now) = []"
  "connection_task (OpcuaClient_init cfg now) = None"
proof -
  let ?s0 = "\<lparr> subscription = None, is_connected = False, running = False,
         connection_task = None, data_store = [], node_map = [],
         heap = (\<lambda>r. None), next_ref = 0 \<rparr>"
  have "init_ok now [] ?s0" by (simp add: init_ok_def)
  from initialize_loop_init_ok[OF this, of "concat cfg"]
  show "init_ok now (concat cfg) (OpcuaClient_init cfg now)"
    by (simp add: OpcuaClient_init_def initialize_data_store_def)
  show "fst ` set (data_store (OpcuaClient_init cfg now)) = tg_name ` set (concat cfg)"
    by (simp add: OpcuaClient_init_def initialize_data_store_def initialize_loop_facts(1))
  show "distinct (map fst (data_store (OpcuaClient_init cfg now)))"
    by (simp add: OpcuaClient_init_def initialize_data_store_def initialize_loop_facts(2))
  show "\<not> is_connected (OpcuaClient_init cfg now)" "\<not> running (OpcuaClient_init cfg now)"
    "subscription (OpcuaClient_init cfg now) = None" "node_map (OpcuaClient_init cfg now) = []"
    "connection_task (OpcuaClient_init cfg now) = None"
    by (simp_all add: OpcuaClient_init_def initialize_data_store_def initialize_loop_facts(3-7))
qed

lemma init_ok_cache_ok: "init_ok now ts s \<Longrightarrow> cache_ok s"
  by (auto simp: init_ok_def cache_ok_def list_all_iff split: option.splits)

lemma init_conn_ok: "conn_ok (OpcuaClient_init cfg now)"
  by (simp add: conn_ok_def init_facts)

lemma no_connect_step:
  assumes "\<not> connect_succeeds e" "\<not> is_connected s" "node_map s = []"
  shows "heap (step cfg e s) = heap s \<and> \<not> is_connected (step cfg e s) \<and> node_map (step cfg e s) = []"
proof (cases e)
  case Start
  then show ?thesis using assms by (simp add: start_def)
next
  case (Stop env)
  then show ?thesis using assms by (simp add: stop_def disconnect_def)
next
  case (ManagerTurn env now)
  with assms(1) obtain x where "t_connect env = Some x" by auto
  then show ?thesis using ManagerTurn assms(2,3)
    by (simp add: connection_manager_body_def connect_def disconnect_def)
next
  case (DataChange nd dv now)
  then show ?thesis using assms by (simp add: update_tag_value_from_node_def)
qed (use assms in simp_all)

lemma no_connect_run:
  "list_all (\<lambda>e. \<not> connect_succeeds e) es \<Longrightarrow> \<not> is_connected s \<Longrightarrow> node_map s = [] \<Longrightarrow>
   heap (run cfg es s) = heap s"
  unfolding run_def
proof (induction es arbitrary: s)
  case Nil
  then show ?case by simp
next
  case (Cons e es)
  from Cons.prems have e: "\<not> connect_succeeds e" and es: "list_all (\<lambda>e. \<not> connect_succeeds e) es"
    by simp_all
  note st = no_connect_step[OF e Cons.prems(2,3), of cfg]
  from Cons.IH[OF es, of "step cfg e s"] st show ?case by simp
qed

lemma init_entry:
  assumes "nm \<in> tg_name ` set (concat cfg)"
  shows "\<exists>r lt. map_of (data_store (OpcuaClient_init cfg now)) nm = Some r \<and>
           heap (OpcuaClient_init cfg now) r = Some lt \<and> lt_name lt = nm \<and> lt_value lt = PNone \<and>
           lt_status lt = ''Uncertain'' \<and> r < length (concat cfg) \<and>
           tg_name (concat cfg ! r) = nm \<and>
           (\<forall>j. r < j \<and> j < length (concat cfg) \<longrightarrow> tg_name (concat cfg ! j) \<noteq> nm) \<and>
           lt_timestamp lt = Some (now r)"
proof -
  from assms have "nm \<in> fst ` set (data_store (OpcuaClient_init cfg now))"
    by (simp add: init_facts(1))
  then obtain r where r: "map_of (data_store (OpcuaClient_init cfg now)) nm = Some r"
    by (metis domD dom_map_of_conv_image_fst)
  then have "(nm, r) \<in> set (data_store (OpcuaClient_init cfg now))"
    by (rule map_of_SomeD)
  moreover have "init_ok now (concat cfg) (OpcuaClient_init cfg now)" by (rule init_facts(2))
  then have "\<forall>x\<in>set (data_store (OpcuaClient_init cfg now)). case x of (n, r) \<Rightarrow>
      r < length (concat cfg) \<and> tg_name (concat cfg ! r) = n \<and>
      (\<forall>j\<in>set [Suc r..<length (concat cfg)]. tg_name (concat cfg ! j) \<noteq> n) \<and>
      (case heap (OpcuaClient_init cfg now) r of None \<Rightarrow> False
       | Some lt \<Rightarrow> lt_name lt = n \<and> lt_value lt = PNone \<and> lt_status lt = ''Uncertain''
           \<and> lt_timestamp lt = Some (now r))"
    by (simp add: init_ok_def list_all_iff)
  ultimately have e: "r < length (concat cfg) \<and> tg_name (concat cfg ! r) = nm \<and>
      (\<forall>j\<in>set [Suc r..<length (concat cfg)]. tg_name (concat cfg ! j) \<noteq> nm) \<and>
      (case heap (OpcuaClient_init cfg now) r of None \<Rightarrow> False
       | Some lt \<Rightarrow> lt_name lt = nm \<and> lt_value lt = PNone \<and> lt_status lt = ''Uncertain''
           \<and> lt_timestamp lt = Some (now r))"
    by fastforce
  then obtain lt where lt: "heap (OpcuaClient_init cfg now) r = Some lt" "lt_name lt = nm"
    "lt_value lt = PNone" "lt_status lt = ''Uncertain''" "lt_timestamp lt = Some (now r)"
    by (auto split: option.splits)
  from e have "\<forall>j. r < j \<and> j < length (concat cfg) \<longrightarrow> tg_name (concat cfg ! j) \<noteq> nm"
    by auto
  with e r lt show ?thesis by blast
qed

lemma cache_entry:
  assumes "cache_ok s" "map_of (data_store s) nm = Some r"
  shows "\<exists>lt ts. heap s r = Some lt \<and> lt_name lt = nm \<and> lt_timestamp lt = Some ts"
proof -
  from assms(2) have "(nm, r) \<in> set (data_store s)" by (rule map_of_SomeD)
  with assms(1) show ?thesis
    by (auto simp: cache_ok_def list_all_iff split: option.splits)
qed

lemma run_reachable_cache_ok: "cache_ok (run cfg es (OpcuaClient_init cfg now))"
  by (rule run_cache_ok[OF init_ok_cache_ok[OF init_facts(2)]])

lemma run_keys:
  "dom (map_of (data_store (run cfg es (OpcuaClient_init cfg now)))) = tg_name ` set (concat cfg)"
  by (simp add: dom_map_of_conv_image_fst init_facts(1))

lemma run_reachable_conn_ok: "conn_ok (run cfg es (OpcuaClient_init cfg now))"
  by (rule run_conn_ok[OF init_conn_ok])

lemma tag_entry_cong:
  "heap s' = heap s \<Longrightarrow> data_store s' = data_store s \<Longrightarrow> tag_entry s' nm = tag_entry s nm"
  by (simp add: tag_entry_def get_tag_by_name_def deref_def split: option.splits)

lemma update_applied_timestamp:
  assumes "map_of (node_map s) nd = Some nm" "nm \<noteq> []" "tag_entry s nm = Some lt0"
    "dv_Value dv = Some v" "dv_StatusCode_name dv = Some st"
  shows "tag_entry (snd (update_tag_value_from_node nd dv now s)) nm =
           Some (lt0\<lparr> lt_value := v, lt_status := st,
                  lt_timestamp := Some (case dv_SourceTimestamp dv of Some t \<Rightarrow> t | None \<Rightarrow> now) \<rparr>)"
proof -
  from assms(3) obtain r where r: "map_of (data_store s) nm = Some r" "heap s r = Some lt0"
    by (auto simp: tag_entry_def get_tag_by_name_def deref_def split: option.splits)
  with assms(1,2,4,5) show ?thesis
    by (simp add: update_tag_value_from_node_def Let_def tag_entry_def get_tag_by_name_def
          deref_def set_value_def set_status_def set_timestamp_def)
qed

lemma update_no_write:
  "update_writes nd dv s = [] \<Longrightarrow> snd (update_tag_value_from_node nd dv now s) = s"
  by (simp add: update_writes_def update_tag_value_from_node_def split: option.splits if_splits)

lemma update_heap_other:
  assumes "map_of (node_map s) nd = Some tn" "map_of (data_store s) tn = Some r" "r' \<noteq> r"
  shows "heap (snd (update_tag_value_from_node nd dv now s)) r' = heap s r'"
  using assms
  by (simp add: update_tag_value_from_node_def Let_def set_value_def set_status_def
        set_timestamp_def split: option.splits)

lemma update_frame:
  assumes ok: "cache_ok s" and nm: "nm \<notin> set (update_writes nd dv s)"
  shows "tag_entry (snd (update_tag_value_from_node nd dv now s)) nm = tag_entry s nm"
proof (cases "update_writes nd dv s = []")
  case True
  then show ?thesis by (simp add: update_no_write)
next
  case False
  then obtain tn r where tn: "map_of (node_map s) nd = Some tn" "map_of (data_store s) tn = Some r"
    and w: "update_writes nd dv s = [tn]"
    by (auto simp: update_writes_def split: option.splits if_splits)
  from nm w have ne: "nm \<noteq> tn" by simp
  show ?thesis
  proof (cases "map_of (data_store s) nm")
    case None
    then show ?thesis by (simp add: tag_entry_def get_tag_by_name_def)
  next
    case (Some r')
    from cache_entry[OF ok tn(2)] cache_entry[OF ok Some] ne have "r' \<noteq> r" by auto
    from update_heap_other[OF tn this] Some show ?thesis
      by (simp add: tag_entry_def get_tag_by_name_def deref_def)
  qed
qed

lemma populate_frame:
  "cache_ok s \<Longrightarrow> nm \<notin> set (populate_writes now i nds dvs s) \<Longrightarrow>
   tag_entry (snd (populate_loop now i nds dvs s)) nm = tag_entry s nm"
proof (induction now i nds dvs s rule: populate_loop.induct)
  case (3 now i nd nds dv dvs s)
  obtain r1 s1 where u: "update_tag_value_from_node nd dv (now i) s = (r1, s1)"
    by (cases "update_tag_value_from_node nd dv (now i) s")
  from "3.prems"(2) have "nm \<notin> set (update_writes nd dv s)" by simp
  from update_frame[OF "3.prems"(1) this, of "now i"] u
  have f: "tag_entry s1 nm = tag_entry s nm" by simp
  show ?case
  proof (cases r1)
    case (Raised e)
    with u f show ?thesis by simp
  next
    case (Returned x)
    from "3.prems"(2) u Returned have n2: "nm \<notin> set (populate_writes now (Suc i) nds dvs s1)"
      by simp
    from update_D(2)[OF u "3.prems"(1)] have ok1: "cache_ok s1" .
    from "3.IH"[OF u[symmetric] Returned ok1 n2] u Returned f show ?thesis by simp
  qed
qed simp_all

lemma populate_initial_data_state:
  "snd (populate_initial_data env now nodes s) = s \<or>
   (t_read_values env nodes = None \<and>
    (\<exists>dvs. t_read_data_values env nodes = Inr dvs \<and>
       snd (populate_initial_data env now nodes s) = snd (populate_loop now 0 nodes dvs s)))"
  by (auto simp: populate_initial_data_def populate_initial_data_try_def
        split: option.splits sum.splits prod.splits res.splits)

lemma initialize_subscriptions_try_heap:
  "heap (snd (initialize_subscriptions_try cfg env now s)) = heap s \<or>
   (\<exists>sub nodes s2 dvs. t_create_subscription env = Inr sub \<and>
      get_nodes_loop env (concat cfg) [] (s\<lparr> subscription := Some sub \<rparr>) = (Returned nodes, s2) \<and>
      nodes \<noteq> [] \<and> t_subscribe_data_change env nodes = None \<and>
      t_read_values env nodes = None \<and> t_read_data_values env nodes = Inr dvs \<and>
      heap (snd (initialize_subscriptions_try cfg env now s)) =
        heap (snd (populate_loop now 0 nodes dvs s2)))"
proof (cases "t_create_subscription env")
  case (Inl e)
  then show ?thesis by (simp add: initialize_subscriptions_try_def)
next
  case (Inr sub)
  obtain rn s2 where g: "get_nodes_loop env (concat cfg) [] (s\<lparr> subscription := Some sub \<rparr>) = (rn, s2)"
    by (cases "get_nodes_loop env (concat cfg) [] (s\<lparr> subscription := Some sub \<rparr>)")
  from get_nodes_loop_D[OF g] have h2: "heap s2 = heap s" by simp
  show ?thesis
  proof (cases rn)
    case (Raised e)
    with Inr g h2 show ?thesis by (simp add: initialize_subscriptions_try_def)
  next
    case (Returned nodes)
    show ?thesis
    proof (cases "nodes = []")
      case True
      with Inr g Returned h2 show ?thesis by (simp add: initialize_subscriptions_try_def)
    next
      case False
      show ?thesis
      proof (cases "t_subscribe_data_change env nodes")
        case (Some e)
        with Inr g Returned False h2 show ?thesis by (simp add: initialize_subscriptions_try_def)
      next
        case None
        with Inr g Returned False
        have t: "initialize_subscriptions_try cfg env now s = populate_initial_data env now nodes s2"
          by (simp add: initialize_subscriptions_try_def)
        from populate_initial_data_state[of env now nodes s2] show ?thesis
        proof
          assume "snd (populate_initial_data env now nodes s2) = s2"
          with t h2 show ?thesis by simp
        next
          assume "t_read_values env nodes = None \<and>
            (\<exists>dvs. t_read_data_values env nodes = Inr dvs \<and>
               snd (populate_initial_data env now nodes s2) = snd (populate_loop now 0 nodes dvs s2))"
          then obtain dvs where "t_read_values env nodes = None" "t_read_data_values env nodes = Inr dvs"
            "snd (populate_initial_data env now nodes s2) = snd (populate_loop now 0 nodes dvs s2)"
            by blast
          with t Inr g Returned False None show ?thesis by auto
        qed
      qed
    qed
  qed
qed

lemma initialize_subscriptions_heap:
  "heap (snd (initialize_subscriptions cfg env now s)) = heap s \<or>
   heap (snd (initialize_subscriptions cfg env now s)) =
     heap (snd (initialize_subscriptions_try cfg env now s))"
proof -
  obtain r1 s1 where t: "initialize_subscriptions_try cfg env now s = (r1, s1)"
    by (cases "initialize_subscriptions_try cfg env now s")
  have "heap (snd (disconnect env s1)) = heap s1"
    using disconnect_D(1)[of env s1 "fst (disconnect env s1)" "snd (disconnect env s1)"] by simp
  with t show ?thesis
    by (simp add: initialize_subscriptions_def split: res.splits)
qed

lemma connection_manager_body_heap:
  "heap (snd (connection_manager_body cfg env now s)) = heap s \<or>
   (\<not> is_connected s \<and> t_connect env = None \<and>
    heap (snd (connection_manager_body cfg env now s)) =
      heap (snd (initialize_subscriptions cfg env now (s\<lparr> is_connected := True \<rparr>))))"
proof (cases "is_connected s")
  case True
  then show ?thesis by (simp add: connection_manager_body_def)
next
  case nc: False
  show ?thesis
  proof (cases "t_connect env")
    case (Some e)
    with nc show ?thesis
      by (simp add: connection_manager_body_def connect_def disconnect_def)
  next
    case None
    obtain r2 s2 where i: "initialize_subscriptions cfg env now (s\<lparr> is_connected := True \<rparr>) = (r2, s2)"
      by (cases "initialize_subscriptions cfg env now (s\<lparr> is_connected := True \<rparr>)")
    have "heap (snd (disconnect env s2)) = heap s2"
      using disconnect_D(1)[of env s2 "fst (disconnect env s2)" "snd (disconnect env s2)"] by simp
    with nc None i show ?thesis
      by (simp add: connection_manager_body_def connect_def split: res.splits)
  qed
qed

lemma turn_frame:
  assumes ok: "cache_ok s" and nm: "nm \<notin> set (turn_writes cfg env now s)"
  shows "tag_entry (snd (connection_manager_body cfg env now s)) nm = tag_entry s nm"
proof -
  let ?B = "snd (connection_manager_body cfg env now s)"
  let ?s1 = "s\<lparr> is_connected := True \<rparr>"
  have ds: "data_store ?B = data_store s"
    using connection_manager_body_D[of cfg env now s "fst (connection_manager_body cfg env now s)" ?B]
    by simp
  have same: "tag_entry ?B nm = tag_entry s nm" if "heap ?B = heap s"
    using that ds by (rule tag_entry_cong)
  from connection_manager_body_heap[of cfg env now s] show ?thesis
  proof
    assume "heap ?B = heap s"
    then show ?thesis by (rule same)
  next
    assume a: "\<not> is_connected s \<and> t_connect env = None \<and>
      heap ?B = heap (snd (initialize_subscriptions cfg env now ?s1))"
    from initialize_subscriptions_heap[of cfg env now ?s1] show ?thesis
    proof
      assume "heap (snd (initialize_subscriptions cfg env now ?s1)) = heap ?s1"
      with a have "heap ?B = heap s" by simp
      then show ?thesis by (rule same)
    next
      assume b: "heap (snd (initialize_subscriptions cfg env now ?s1)) =
        heap (snd (initialize_subscriptions_try cfg env now ?s1))"
      from initialize_subscriptions_try_heap[of cfg env now ?s1] show ?thesis
      proof
        assume "heap (snd (initialize_subscriptions_try cfg env now ?s1)) = heap ?s1"
        with a b have "heap ?B = heap s" by simp
        then show ?thesis by (rule same)
      next
        assume "\<exists>sub nodes s2 dvs. t_create_subscription env = Inr sub \<and>
          get_nodes_loop env (concat cfg) [] (?s1\<lparr> subscription := Some sub \<rparr>) = (Returned nodes, s2) \<and>
          nodes \<noteq> [] \<and> t_subscribe_data_change env nodes = None \<and>
          t_read_values env nodes = None \<and> t_read_data_values env nodes = Inr dvs \<and>
          heap (snd (initialize_subscriptions_try cfg env now ?s1)) =
            heap (snd (populate_loop now 0 nodes dvs s2))"
        then obtain sub nodes s2 dvs where c: "t_create_subscription env = Inr sub"
          "get_nodes_loop env (concat cfg) [] (?s1\<lparr> subscription := Some sub \<rparr>) = (Returned nodes, s2)"
          "nodes \<noteq> []" "t_subscribe_data_change env nodes = None"
          "t_read_values env nodes = None" "t_read_data_values env nodes = Inr dvs"
          and h: "heap (snd (initialize_subscriptions_try cfg env now ?s1)) =
            heap (snd (populate_loop now 0 nodes dvs s2))"
          by blast
        from a c have w: "turn_writes cfg env now s = populate_writes now 0 nodes dvs s2"
          by (simp add: turn_writes_def)
        from get_nodes_loop_D[OF c(2)] have s2: "heap s2 = heap s" "data_store s2 = data_store s"
          by simp_all
        have ok2: "cache_ok s2" using ok cache_ok_cong[OF s2] by simp
        from nm w have "nm \<notin> set (populate_writes now 0 nodes dvs s2)" by simp
        from populate_frame[OF ok2 this]
        have p: "tag_entry (snd (populate_loop now 0 nodes dvs s2)) nm = tag_entry s2 nm" .
        have "data_store (snd (populate_loop now 0 nodes dvs s2)) = data_store s2"
          using populate_loop_D[of now 0 nodes dvs s2 "fst (populate_loop now 0 nodes dvs s2)"
                  "snd (populate_loop now 0 nodes dvs s2)"]
          by (simp add: unchanged_ctl_def)
        with ds s2 have "data_store ?B = data_store (snd (populate_loop now 0 nodes dvs s2))"
          by simp
        moreover from a b h have "heap ?B = heap (snd (populate_loop now 0 nodes dvs s2))" by simp
        ultimately have "tag_entry ?B nm = tag_entry (snd (populate_loop now 0 nodes dvs s2)) nm"
          by (intro tag_entry_cong)
        also note p
        also have "tag_entry s2 nm = tag_entry s nm" using s2 by (rule tag_entry_cong)
        finally show ?thesis .
      qed
    qed
  qed
qed

lemma step_frame:
  assumes "cache_ok s" "nm \<notin> set (writes cfg e s)"
  shows "tag_entry (step cfg e s) nm = tag_entry s nm"
proof (cases e)
  case Start
  have "tag_entry (snd (start s)) nm = tag_entry s nm"
    using start_D(1,2)[of s "fst (start s)" "snd (start s)"] by (intro tag_entry_cong) simp_all
  with Start show ?thesis by simp
next
  case (Stop env)
  have "tag_entry (snd (stop env s)) nm = tag_entry s nm"
    using stop_D(1,2)[of env s "fst (stop env s)" "snd (stop env s)"]
    by (intro tag_entry_cong) simp_all
  with Stop show ?thesis by simp
next
  case (ManagerTurn env now)
  with assms show ?thesis by (simp add: turn_frame split: if_splits)
next
  case (DataChange nd dv now)
  with assms show ?thesis by (simp add: update_frame)
qed simp_all

lemma run_frame:
  "cache_ok s \<Longrightarrow> no_data_for cfg nm es s \<Longrightarrow> tag_entry (run cfg es s) nm = tag_entry s nm"
  unfolding run_def
proof (induction es arbitrary: s)
  case Nil
  then show ?case by simp
next
  case (Cons e es)
  from Cons.prems have w: "nm \<notin> set (writes cfg e s)" and r: "no_data_for cfg nm es (step cfg e s)"
    by simp_all
  from Cons.IH[OF step_cache_ok[OF Cons.prems(1)] r] step_frame[OF Cons.prems(1) w]
  show ?case by simp
qed

lemma step_connected:
  "(is_connected s \<and> \<not> is_Stop e \<longrightarrow> is_connected (step cfg e s)) \<and>
   (\<not> is_connected s \<and> is_connected (step cfg e s) \<longrightarrow> connect_succeeds e)"
proof (cases e)
  case Start
  then show ?thesis using start_D(4)[of s "fst (start s)" "snd (start s)"] by simp
next
  case (Stop env)
  then show ?thesis by (simp add: stop_def disconnect_def Let_def split: option.splits)
next
  case (ManagerTurn env now)
  then show ?thesis
    by (auto simp: connection_manager_body_def connect_def disconnect_def split: option.splits)
qed simp_all

section \<open>The claims\<close>

text \<open>
  C1. The key set of the tag cache equals the set of configured tag names at every point
  of the process lifetime: whatever operations have run since construction, the
  dictionary has exactly the configured names as keys, each once, the objects that
  \<^verbatim>\<open>get_all_tags\<close> returns carry exactly these names, and no single operation, from any
  state, changes the dictionary.
\<close>

theorem cache_key_set_fixed:
  "dom (map_of (data_store (run cfg es (OpcuaClient_init cfg now)))) = tg_name ` set (concat cfg)
   \<and> distinct (map fst (data_store (run cfg es (OpcuaClient_init cfg now))))
   \<and> (\<lambda>r. map_option lt_name (deref (run cfg es (OpcuaClient_init cfg now)) r))
         ` set (get_all_tags (run cfg es (OpcuaClient_init cfg now)))
       = Some ` tg_name ` set (concat cfg)
   \<and> data_store (step cfg e s) = data_store s"
proof -
  let ?S = "run cfg es (OpcuaClient_init cfg now)"
  have ds: "data_store ?S = data_store (OpcuaClient_init cfg now)" by simp
  have d: "distinct (map fst (data_store ?S))" by (simp add: init_facts(3))
  have nm: "map_option lt_name (deref ?S r) = Some n" if "(n, r) \<in> set (data_store ?S)" for n r
  proof -
    from d that have "map_of (data_store ?S) n = Some r" by (rule map_of_is_SomeI)
    from cache_entry[OF run_reachable_cache_ok this] show ?thesis by (auto simp: deref_def)
  qed
  have "(\<lambda>r. map_option lt_name (deref ?S r)) ` set (get_all_tags ?S) = Some ` fst ` set (data_store ?S)"
    unfolding get_all_tags_def using nm by (force simp: image_iff)
  then have "(\<lambda>r. map_option lt_name (deref ?S r)) ` set (get_all_tags ?S) = Some ` tg_name ` set (concat cfg)"
    by (simp add: init_facts(1))
  with d run_keys[of cfg es now] show ?thesis by simp
qed

text \<open>
  C2. A data-change notification whose node is not a key of the node map leaves the
  whole client state, and so every tag cache entry, unchanged, and the update returns
  without raising.
\<close>

theorem unmapped_notification_discarded:
  "map_of (node_map s) nd = None \<Longrightarrow>
   update_tag_value_from_node nd dv now s = (Returned (), s)"
  by (simp add: update_tag_value_from_node_def)

theorem unmapped_notification_discarded_witness:
  "map_of (node_map s_live) (Node ''ns=9;i=9'') = None \<and>
   update_tag_value_from_node (Node ''ns=9;i=9'') dv_good 8 s_live = (Returned (), s_live)"
proof -
  have h: "map_of (node_map s_live) (Node ''ns=9;i=9'') = None" by code_simp
  from unmapped_notification_discarded[OF h] h show ?thesis by simp
qed




text \<open>
  C4 (as stated: after construction every entry has quality NoData and value null).
  The constructor stores the status \<^verbatim>\<open>"Uncertain"\<close>, not NoData.
\<close>

theorem initial_quality_nodata_counterexample:
  "map_option lt_status (tag_entry (OpcuaClient_init cfg_ex (clock_from 0)) ''A'') = Some ''Uncertain'' \<and>
   map_option lt_status (tag_entry (OpcuaClient_init cfg_ex (clock_from 0)) ''A'') \<noteq> Some ''NoData''"
  by code_simp

text \<open>
  C4, amended. As long as no connect has succeeded (in particular right after
  construction), every configured tag's entry has status \<^verbatim>\<open>"Uncertain"\<close> and the value
  \<^verbatim>\<open>None\<close>.
\<close>

theorem initial_entries_uncertain_null:
  "t \<in> set (concat cfg) \<Longrightarrow> list_all (\<lambda>e. \<not> connect_succeeds e) es \<Longrightarrow>
   \<exists>lt. tag_entry (run cfg es (OpcuaClient_init cfg now)) (tg_name t) = Some lt \<and>
        lt_status lt = ''Uncertain'' \<and> lt_value lt = PNone"
proof -
  assume t: "t \<in> set (concat cfg)" and es: "list_all (\<lambda>e. \<not> connect_succeeds e) es"
  let ?I = "OpcuaClient_init cfg now"
  have "heap (run cfg es ?I) = heap ?I"
    by (rule no_connect_run[OF es]) (simp_all add: init_facts)
  then have "tag_entry (run cfg es ?I) (tg_name t) = tag_entry ?I (tg_name t)"
    by (intro tag_entry_cong) simp_all
  moreover from t have "tg_name t \<in> tg_name ` set (concat cfg)" by simp
  from init_entry[OF this, of now] have
    "\<exists>lt. tag_entry ?I (tg_name t) = Some lt \<and> lt_status lt = ''Uncertain'' \<and> lt_value lt = PNone"
    by (auto simp: tag_entry_def get_tag_by_name_def deref_def)
  ultimately show ?thesis by simp
qed

theorem initial_entries_uncertain_null_witness:
  "tagB \<in> set (concat cfg_ex) \<and>
   list_all (\<lambda>e. \<not> connect_succeeds e) [Start, ManagerTurn env_down (clock_from 3), DataChange (Node ''ns=2;i=2'') dv_good 4] \<and>
   (\<exists>lt. tag_entry (run cfg_ex [Start, ManagerTurn env_down (clock_from 3), DataChange (Node ''ns=2;i=2'') dv_good 4]
              (OpcuaClient_init cfg_ex (clock_from 0))) (tg_name tagB) = Some lt \<and>
        lt_status lt = ''Uncertain'' \<and> lt_value lt = PNone)"
proof -
  have h: "tagB \<in> set (concat cfg_ex)"
    "list_all (\<lambda>e. \<not> connect_succeeds e) [Start, ManagerTurn env_down (clock_from 3), DataChange (Node ''ns=2;i=2'') dv_good 4]"
    by (simp_all add: cfg_ex_def env_down_def env_ok_def)
  from initial_entries_uncertain_null[OF h, of "clock_from 0"] h show ?thesis by blast
qed

text \<open>
  C5 (as stated: a configured tag that has received no data yields quality NoData).
  The point query then returns the object built by the constructor, whose status is
  \<^verbatim>\<open>"Uncertain"\<close>.
\<close>

theorem silent_tag_nodata_counterexample:
  "get_tag_by_name ''A'' (OpcuaClient_init cfg_ex (clock_from 0)) = Some 0 \<and>
   map_option lt_status (deref (OpcuaClient_init cfg_ex (clock_from 0)) 0) = Some ''Uncertain'' \<and>
   map_option lt_status (deref (OpcuaClient_init cfg_ex (clock_from 0)) 0) \<noteq> Some ''NoData''"
  by code_simp

text \<open>
  C5, amended. In every reachable state \<^verbatim>\<open>get_tag_by_name\<close> returns \<^verbatim>\<open>None\<close>
  (not found) exactly when the name is not a configured tag name; for a configured tag
  that has not yet received any data (no update of an initial read or of a notification
  has delivered a value to it, whatever other tags received and whether or not the
  client is connected) it returns a tag with status \<^verbatim>\<open>"Uncertain"\<close> and value
  \<^verbatim>\<open>None\<close>, never not-found.
\<close>

theorem get_tag_not_found_iff:
  "(get_tag_by_name nm (run cfg es (OpcuaClient_init cfg now)) = None
      \<longleftrightarrow> nm \<notin> tg_name ` set (concat cfg)) \<and>
   (nm \<in> tg_name ` set (concat cfg) \<and> no_data_for cfg nm es (OpcuaClient_init cfg now) \<longrightarrow>
      (\<exists>r lt. get_tag_by_name nm (run cfg es (OpcuaClient_init cfg now)) = Some r \<and>
         deref (run cfg es (OpcuaClient_init cfg now)) r = Some lt \<and>
         lt_status lt = ''Uncertain'' \<and> lt_value lt = PNone))"
proof -
  let ?I = "OpcuaClient_init cfg now"
  let ?S = "run cfg es ?I"
  have a: "get_tag_by_name nm ?S = None \<longleftrightarrow> nm \<notin> tg_name ` set (concat cfg)"
    using run_keys[of cfg es now] by (auto simp: get_tag_by_name_def domIff)
  have b: "\<exists>r lt. get_tag_by_name nm ?S = Some r \<and> deref ?S r = Some lt \<and>
         lt_status lt = ''Uncertain'' \<and> lt_value lt = PNone"
    if nm: "nm \<in> tg_name ` set (concat cfg)" and quiet: "no_data_for cfg nm es ?I"
  proof -
    have ok: "cache_ok ?I" by (rule init_ok_cache_ok[OF init_facts(2)])
    from init_entry[OF nm, of now] obtain lt where
      "tag_entry ?I nm = Some lt" "lt_status lt = ''Uncertain''" "lt_value lt = PNone"
      by (auto simp: tag_entry_def get_tag_by_name_def deref_def)
    with run_frame[OF ok quiet] have
      "tag_entry ?S nm = Some lt \<and> lt_status lt = ''Uncertain'' \<and> lt_value lt = PNone"
      by simp
    then show ?thesis
      by (auto simp: tag_entry_def split: option.splits)
  qed
  from a b show ?thesis by blast
qed

theorem get_tag_not_found_iff_witness:
  "''B'' \<in> tg_name ` set (concat cfg_ex) \<and>
   no_data_for cfg_ex ''B''
     [Start, ManagerTurn env_short (clock_from 3), DataChange (Node ''ns=2;i=1'') dv_nostamp 8]
     (OpcuaClient_init cfg_ex (clock_from 0)) \<and>
   is_connected (run cfg_ex
     [Start, ManagerTurn env_short (clock_from 3), DataChange (Node ''ns=2;i=1'') dv_nostamp 8]
     (OpcuaClient_init cfg_ex (clock_from 0))) \<and>
   (get_tag_by_name ''B'' (run cfg_ex
       [Start, ManagerTurn env_short (clock_from 3), DataChange (Node ''ns=2;i=1'') dv_nostamp 8]
       (OpcuaClient_init cfg_ex (clock_from 0))) = None
      \<longleftrightarrow> ''B'' \<notin> tg_name ` set (concat cfg_ex)) \<and>
   (\<exists>r lt. get_tag_by_name ''B'' (run cfg_ex
       [Start, ManagerTurn env_short (clock_from 3), DataChange (Node ''ns=2;i=1'') dv_nostamp 8]
       (OpcuaClient_init cfg_ex (clock_from 0))) = Some r \<and>
         deref (run cfg_ex
           [Start, ManagerTurn env_short (clock_from 3), DataChange (Node ''ns=2;i=1'') dv_nostamp 8]
           (OpcuaClient_init cfg_ex (clock_from 0))) r = Some lt \<and>
         lt_status lt = ''Uncertain'' \<and> lt_value lt = PNone) \<and>
   ''Z'' \<notin> tg_name ` set (concat cfg_ex) \<and>
   get_tag_by_name ''Z'' (run cfg_ex
       [Start, ManagerTurn env_short (clock_from 3), DataChange (Node ''ns=2;i=1'') dv_nostamp 8]
       (OpcuaClient_init cfg_ex (clock_from 0))) = None"
proof -
  let ?es = "[Start, ManagerTurn env_short (clock_from 3), DataChange (Node ''ns=2;i=1'') dv_nostamp 8]"
  have h: "''B'' \<in> tg_name ` set (concat cfg_ex)" "''Z'' \<notin> tg_name ` set (concat cfg_ex)"
    by (simp_all add: cfg_ex_def tagA_def tagB_def)
  have q: "no_data_for cfg_ex ''B'' ?es (OpcuaClient_init cfg_ex (clock_from 0))"
    by code_simp
  have c: "is_connected (run cfg_ex ?es (OpcuaClient_init cfg_ex (clock_from 0)))"
    by code_simp
  from get_tag_not_found_iff[of "''B''" cfg_ex ?es "clock_from 0"]
       get_tag_not_found_iff[of "''Z''" cfg_ex ?es "clock_from 0"] h q c
  show ?thesis by blast
qed

text \<open>
  C6 (as stated: \<^verbatim>\<open>is_connected\<close> is false in the window after \<^verbatim>\<open>connect\<close> succeeds and
  before the subscription is established). \<^verbatim>\<open>connect\<close> sets the flag itself: right after
  it, the flag is true while there is neither a subscription nor a node map.
\<close>

theorem connected_before_subscription_counterexample:
  "is_connected (snd (connect env_ok (OpcuaClient_init cfg_ex (clock_from 0)))) \<and>
   subscription (snd (connect env_ok (OpcuaClient_init cfg_ex (clock_from 0)))) = None \<and>
   node_map (snd (connect env_ok (OpcuaClient_init cfg_ex (clock_from 0)))) = []"
  by code_simp

text \<open>
  C6, amended. \<^verbatim>\<open>is_connected\<close> reports the transport session: it is true as soon as
  \<^verbatim>\<open>connect\<close> has succeeded and stays true until the next disconnect (of all operations
  only \<^verbatim>\<open>stop\<close> takes a connected client to a disconnected one, and only an operation in
  which \<^verbatim>\<open>connect\<close> succeeds takes a disconnected client to a connected one); it is false
  after construction and after every \<^verbatim>\<open>disconnect\<close>, and in every reachable state an
  established subscription implies that it is true.
\<close>

theorem is_connected_tracks_session:
  "(t_connect env = None \<longrightarrow> is_connected (snd (connect env s))) \<and>
   \<not> is_connected (snd (disconnect env s)) \<and>
   \<not> is_connected (OpcuaClient_init cfg now) \<and>
   (subscription (run cfg es (OpcuaClient_init cfg now)) \<noteq> None \<longrightarrow>
      is_connected (run cfg es (OpcuaClient_init cfg now))) \<and>
   (is_connected s \<and> \<not> is_Stop e \<longrightarrow> is_connected (step cfg e s)) \<and>
   (\<not> is_connected s \<and> is_connected (step cfg e s) \<longrightarrow> connect_succeeds e)"
proof -
  have "conn_ok (run cfg es (OpcuaClient_init cfg now))"
    by (rule run_reachable_conn_ok)
  then have "subscription (run cfg es (OpcuaClient_init cfg now)) \<noteq> None \<longrightarrow>
      is_connected (run cfg es (OpcuaClient_init cfg now))"
    by (auto simp: conn_ok_def)
  moreover have "\<not> is_connected (snd (disconnect env s))"
    using disconnect_D(5)[of env s "fst (disconnect env s)" "snd (disconnect env s)"] by simp
  moreover have "t_connect env = None \<longrightarrow> is_connected (snd (connect env s))"
    by (simp add: connect_def)
  moreover note step_connected[of s e cfg]
  ultimately show ?thesis by (simp add: init_facts)
qed

theorem is_connected_tracks_session_witness:
  "t_connect env_ok = None \<and> is_connected (snd (connect env_ok s_live)) \<and>
   \<not> is_connected (snd (disconnect env_ok s_live)) \<and>
   \<not> is_connected (OpcuaClient_init cfg_ex (clock_from 0)) \<and>
   subscription (run cfg_ex [Start, ManagerTurn env_ok (clock_from 3)]
                   (OpcuaClient_init cfg_ex (clock_from 0))) \<noteq> None \<and>
   is_connected (run cfg_ex [Start, ManagerTurn env_ok (clock_from 3)]
                   (OpcuaClient_init cfg_ex (clock_from 0))) \<and>
   is_connected s_live \<and> \<not> is_Stop (ManagerTurn env_down (clock_from 9)) \<and>
   is_connected (step cfg_ex (ManagerTurn env_down (clock_from 9)) s_live) \<and>
   \<not> is_connected (step cfg_ex Start s_init) \<and>
   is_connected (step cfg_ex (ManagerTurn env_ok (clock_from 3)) (step cfg_ex Start s_init)) \<and>
   connect_succeeds (ManagerTurn env_ok (clock_from 3))"
proof -
  have h: "t_connect env_ok = None"
    "subscription (run cfg_ex [Start, ManagerTurn env_ok (clock_from 3)]
                   (OpcuaClient_init cfg_ex (clock_from 0))) \<noteq> None"
    "is_connected s_live" "\<not> is_Stop (ManagerTurn env_down (clock_from 9))"
    "\<not> is_connected (step cfg_ex Start s_init)"
    "is_connected (step cfg_ex (ManagerTurn env_ok (clock_from 3)) (step cfg_ex Start s_init))"
    by code_simp+
  from is_connected_tracks_session[of env_ok s_live cfg_ex "clock_from 0"
         "[Start, ManagerTurn env_ok (clock_from 3)]" "ManagerTurn env_down (clock_from 9)"]
       is_connected_tracks_session[of env_ok "step cfg_ex Start s_init" cfg_ex "clock_from 0"
         "[Start, ManagerTurn env_ok (clock_from 3)]" "ManagerTurn env_ok (clock_from 3)"] h
  show ?thesis by simp
qed

text \<open>
  C7. \<^verbatim>\<open>get_all_tags\<close> and \<^verbatim>\<open>get_tag_by_name\<close> should hand out a snapshot that later
  updates do not affect. The code returns the cached objects themselves: in the
  subscribed client below both calls return reference 0 for tag \<open>A\<close>, which reads
  (\<^verbatim>\<open>None\<close>, \<^verbatim>\<open>"Uncertain"\<close>, 0); after one data-change notification for \<open>A\<close> the same
  reference reads (10, \<^verbatim>\<open>"Good"\<close>, 5).
\<close>

theorem returned_tags_alias_cache:
  "get_all_tags s_quiet = [0, 1] \<and>
   get_tag_by_name ''A'' s_quiet = Some 0 \<and>
   deref s_quiet 0 = Some \<lparr> lt_name = ''A'', lt_node_id = ''ns=2;i=1'', lt_value = PNone,
                             lt_status = ''Uncertain'', lt_timestamp = Some 0 \<rparr> \<and>
   deref (step cfg_ex (DataChange (Node ''ns=2;i=1'') dv_good 9) s_quiet) 0 =
     Some \<lparr> lt_name = ''A'', lt_node_id = ''ns=2;i=1'', lt_value = PInt 10,
            lt_status = ''Good'', lt_timestamp = Some 5 \<rparr>"
  by code_simp

text \<open>
  C8. \<^verbatim>\<open>stop\<close> on a client that is not running returns without raising and changes
  nothing (running flag, connection state, node map, cache); since \<^verbatim>\<open>stop\<close> always
  leaves the client not running, a second \<^verbatim>\<open>stop\<close> after any \<^verbatim>\<open>stop\<close> is such a
  no-op.
\<close>

theorem stop_not_running_noop:
  "(\<not> running s \<longrightarrow> stop env s = (Returned (), s)) \<and>
   stop env' (snd (stop env s)) = (Returned (), snd (stop env s))"
proof -
  have "\<not> running (snd (stop env s))"
    using stop_D(4)[of env s "fst (stop env s)" "snd (stop env s)"] by simp
  then show ?thesis by (simp add: stop_def)
qed

theorem stop_not_running_noop_witness:
  "\<not> running s_init \<and> stop env_ok s_init = (Returned (), s_init) \<and>
   stop env_ok (snd (stop env_ok s_live)) = (Returned (), snd (stop env_ok s_live))"
proof -
  have h: "\<not> running s_init" by code_simp
  from stop_not_running_noop[of s_init env_ok env_ok] stop_not_running_noop[of s_live env_ok env_ok] h
  show ?thesis by simp
qed

text \<open>
  C9. Every tag cache entry has a timestamp at all times: in every reachable state
  an entry that exists has a non-null timestamp and every configured tag has such an
  entry; construction stores, for each name, the clock reading taken in the loop turn of
  the last tag that carries that name; and an update that is applied stores the
  notification's source timestamp or, when that is null, the current time.
\<close>

theorem timestamps_never_null:
  "(tag_entry (run cfg es (OpcuaClient_init cfg now)) nm = Some lt \<longrightarrow> lt_timestamp lt \<noteq> None) \<and>
   (t \<in> set (concat cfg) \<longrightarrow>
      (\<exists>lt' k. tag_entry (OpcuaClient_init cfg now) (tg_name t) = Some lt' \<and>
             k < length (concat cfg) \<and> tg_name (concat cfg ! k) = tg_name t \<and>
             (\<forall>j. k < j \<and> j < length (concat cfg) \<longrightarrow>
                    tg_name (concat cfg ! j) \<noteq> tg_name t) \<and>
             lt_timestamp lt' = Some (now k)) \<and>
      (\<exists>lt' ts. tag_entry (run cfg es (OpcuaClient_init cfg now)) (tg_name t) = Some lt' \<and>
             lt_timestamp lt' = Some ts)) \<and>
   (map_of (node_map s) nd = Some nm' \<and> nm' \<noteq> [] \<and> tag_entry s nm' = Some lt0 \<and>
    dv_Value dv = Some v \<and> dv_StatusCode_name dv = Some st \<longrightarrow>
      (\<exists>lt'. tag_entry (snd (update_tag_value_from_node nd dv now' s)) nm' = Some lt' \<and>
             lt_timestamp lt' =
               Some (case dv_SourceTimestamp dv of Some ts \<Rightarrow> ts | None \<Rightarrow> now')))"
proof -
  let ?I = "OpcuaClient_init cfg now"
  let ?S = "run cfg es ?I"
  have ok: "cache_ok ?S" by (rule run_reachable_cache_ok)
  have a: "lt_timestamp lt \<noteq> None" if "tag_entry ?S nm = Some lt"
  proof -
    from that obtain r where r: "map_of (data_store ?S) nm = Some r" "heap ?S r = Some lt"
      by (auto simp: tag_entry_def get_tag_by_name_def deref_def split: option.splits)
    from cache_entry[OF ok r(1)] r(2) show ?thesis by auto
  qed
  have b: "\<exists>lt' k. tag_entry ?I (tg_name t) = Some lt' \<and> k < length (concat cfg) \<and>
             tg_name (concat cfg ! k) = tg_name t \<and>
             (\<forall>j. k < j \<and> j < length (concat cfg) \<longrightarrow>
                    tg_name (concat cfg ! j) \<noteq> tg_name t) \<and>
             lt_timestamp lt' = Some (now k)"
    and c: "\<exists>lt' ts. tag_entry ?S (tg_name t) = Some lt' \<and> lt_timestamp lt' = Some ts"
    if t: "t \<in> set (concat cfg)"
  proof -
    from t have m: "tg_name t \<in> tg_name ` set (concat cfg)" by simp
    from init_entry[OF m, of now] obtain r lt0 where
      e: "map_of (data_store ?I) (tg_name t) = Some r" "heap ?I r = Some lt0"
        "r < length (concat cfg)" "tg_name (concat cfg ! r) = tg_name t"
        "\<forall>j. r < j \<and> j < length (concat cfg) \<longrightarrow> tg_name (concat cfg ! j) \<noteq> tg_name t"
        "lt_timestamp lt0 = Some (now r)"
      by blast
    from e(1,2) have "tag_entry ?I (tg_name t) = Some lt0"
      by (simp add: tag_entry_def get_tag_by_name_def deref_def)
    with e(3-6) show
      "\<exists>lt' k. tag_entry ?I (tg_name t) = Some lt' \<and> k < length (concat cfg) \<and>
             tg_name (concat cfg ! k) = tg_name t \<and>
             (\<forall>j. k < j \<and> j < length (concat cfg) \<longrightarrow>
                    tg_name (concat cfg ! j) \<noteq> tg_name t) \<and>
             lt_timestamp lt' = Some (now k)"
      by blast
    from m run_keys[of cfg es now] obtain r where r: "map_of (data_store ?S) (tg_name t) = Some r"
      by blast
    from cache_entry[OF ok r] r show
      "\<exists>lt' ts. tag_entry ?S (tg_name t) = Some lt' \<and> lt_timestamp lt' = Some ts"
      by (auto simp: tag_entry_def get_tag_by_name_def deref_def)
  qed
  have d: "\<exists>lt'. tag_entry (snd (update_tag_value_from_node nd dv now' s)) nm' = Some lt' \<and>
             lt_timestamp lt' = Some (case dv_SourceTimestamp dv of Some ts \<Rightarrow> ts | None \<Rightarrow> now')"
    if "map_of (node_map s) nd = Some nm'" "nm' \<noteq> []" "tag_entry s nm' = Some lt0"
       "dv_Value dv = Some v" "dv_StatusCode_name dv = Some st"
    using update_applied_timestamp[OF that, of now'] by simp
  from a b c d show ?thesis by blast
qed

theorem timestamps_never_null_witness:
  "tag_entry (run cfg_ex [Start, ManagerTurn env_ok (clock_from 3)] (OpcuaClient_init cfg_ex (clock_from 0))) ''A'' =
     Some \<lparr> lt_name = ''A'', lt_node_id = ''ns=2;i=1'', lt_value = PInt 10,
            lt_status = ''Good'', lt_timestamp = Some 5 \<rparr> \<and>
   lt_timestamp \<lparr> lt_name = ''A'', lt_node_id = ''ns=2;i=1'', lt_value = PInt 10,
            lt_status = ''Good'', lt_timestamp = Some 5 \<rparr> \<noteq> None \<and>
   tagB \<in> set (concat cfg_ex) \<and>
   (\<exists>lt' k. tag_entry (OpcuaClient_init cfg_ex (clock_from 0)) (tg_name tagB) = Some lt' \<and>
          k < length (concat cfg_ex) \<and> tg_name (concat cfg_ex ! k) = tg_name tagB \<and>
          (\<forall>j. k < j \<and> j < length (concat cfg_ex) \<longrightarrow>
                 tg_name (concat cfg_ex ! j) \<noteq> tg_name tagB) \<and>
          lt_timestamp lt' = Some (clock_from 0 k)) \<and>
   (\<exists>lt' ts. tag_entry (run cfg_ex [Start, ManagerTurn env_ok (clock_from 3)] (OpcuaClient_init cfg_ex (clock_from 0)))
               (tg_name tagB) = Some lt' \<and> lt_timestamp lt' = Some ts) \<and>
   map_of (node_map s_quiet) (Node ''ns=2;i=1'') = Some ''A'' \<and> ''A'' \<noteq> [] \<and>
   tag_entry s_quiet ''A'' =
     Some \<lparr> lt_name = ''A'', lt_node_id = ''ns=2;i=1'', lt_value = PNone,
            lt_status = ''Uncertain'', lt_timestamp = Some 0 \<rparr> \<and>
   dv_Value dv_nostamp = Some (PInt 7) \<and> dv_StatusCode_name dv_nostamp = Some ''Good'' \<and>
   (\<exists>lt'. tag_entry (snd (update_tag_value_from_node (Node ''ns=2;i=1'') dv_nostamp 9 s_quiet)) ''A''
            = Some lt' \<and>
          lt_timestamp lt' = Some (case dv_SourceTimestamp dv_nostamp of Some ts \<Rightarrow> ts | None \<Rightarrow> 9))"
proof -
  have h1: "tag_entry (run cfg_ex [Start, ManagerTurn env_ok (clock_from 3)] (OpcuaClient_init cfg_ex (clock_from 0))) ''A'' =
     Some \<lparr> lt_name = ''A'', lt_node_id = ''ns=2;i=1'', lt_value = PInt 10,
            lt_status = ''Good'', lt_timestamp = Some 5 \<rparr>"
    by code_simp
  have h2: "tagB \<in> set (concat cfg_ex)" by (simp add: cfg_ex_def)
  have h3: "map_of (node_map s_quiet) (Node ''ns=2;i=1'') = Some ''A''" by code_simp
  have h4: "tag_entry s_quiet ''A'' =
     Some \<lparr> lt_name = ''A'', lt_node_id = ''ns=2;i=1'', lt_value = PNone,
            lt_status = ''Uncertain'', lt_timestamp = Some 0 \<rparr>"
    by code_simp
  have h5: "dv_Value dv_nostamp = Some (PInt 7)" "dv_StatusCode_name dv_nostamp = Some ''Good''"
    by (simp_all add: dv_nostamp_def)
  from timestamps_never_null[of cfg_ex "[Start, ManagerTurn env_ok (clock_from 3)]" "clock_from 0" "''A''"
         "\<lparr> lt_name = ''A'', lt_node_id = ''ns=2;i=1'', lt_value = PInt 10,
            lt_status = ''Good'', lt_timestamp = Some 5 \<rparr>" tagB s_quiet "Node ''ns=2;i=1''" "''A''"
         "\<lparr> lt_name = ''A'', lt_node_id = ''ns=2;i=1'', lt_value = PNone,
            lt_status = ''Uncertain'', lt_timestamp = Some 0 \<rparr>" dv_nostamp "PInt 7" "''Good''" 9]
       h1 h2 h3 h4 h5
  show ?thesis by simp
qed

text \<open>
  C10. \<^verbatim>\<open>disconnect\<close> on a connected client always ends with the connected flag
  false, the subscription reference cleared and the node map empty, whatever the
  transport's own disconnect does; when the transport raises an \<^verbatim>\<open>Exception\<close> the call
  still returns normally. On a client that is not connected it changes no state.
\<close>

theorem disconnect_teardown:
  "(is_connected s \<longrightarrow>
      \<not> is_connected (snd (disconnect env s)) \<and>
      subscription (snd (disconnect env s)) = None \<and>
      node_map (snd (disconnect env s)) = [] \<and>
      (t_disconnect env = Some e \<and> is_Exception e \<longrightarrow> fst (disconnect env s) = Returned ()))
   \<and> (\<not> is_connected s \<longrightarrow> disconnect env s = (Returned (), s))"
  by (auto simp: disconnect_def Let_def split: option.splits)

theorem disconnect_teardown_witness:
  "is_connected s_live \<and> t_disconnect env_baddisc = Some OSError \<and> is_Exception OSError \<and>
   \<not> is_connected (snd (disconnect env_baddisc s_live)) \<and>
   subscription (snd (disconnect env_baddisc s_live)) = None \<and>
   node_map (snd (disconnect env_baddisc s_live)) = [] \<and>
   fst (disconnect env_baddisc s_live) = Returned () \<and>
   \<not> is_connected s_init \<and> disconnect env_baddisc s_init = (Returned (), s_init)"
proof -
  have h: "is_connected s_live" "t_disconnect env_baddisc = Some OSError" "is_Exception OSError"
    "\<not> is_connected s_init"
    by code_simp+
  from disconnect_teardown[of s_live env_baddisc OSError]
       disconnect_teardown[of s_init env_baddisc OSError] h
  show ?thesis by simp
qed

end
